theory Spec2Isabelle
  imports Complex_Main
begin

section \<open>Numbers\<close>

text \<open>
  A JavaScript \<open>number\<close> is a binary64 floating-point number.  Every finite one is a
  real number, and the model's numbers are reals; NaN and the infinities are outside the
  model.

  Where the engine feeds a result back from tick to tick (the scroll fraction and the
  smoothing filter) every operation is rounded as binary64 rounds it: to the nearest
  number with a 53-bit significand, ties to the even one, with gradual underflow below
  \<open>2 powi (- 1022)\<close>; that is \<open>round64\<close> of the exact result.  (An overflow to
  infinity is outside the model.)  The arithmetic of the easing functions, of the segment
  progress and of the velocity is exact.  \<open>Math.pow(2, x)\<close> is \<open>2 powr x\<close>.
\<close>

definition round_half_even :: "real \<Rightarrow> int" where
  "round_half_even y =
     (let n = \<lfloor>y\<rfloor>; d = y - of_int n in
      if d < 1/2 then n
      else if d > 1/2 then n + 1
      else if even n then n else n + 1)"

text \<open>
  \<open>e\<close> is the exponent of \<open>x\<close>, at least that of the subnormal numbers; the result is a
  multiple of \<open>2 powi (e - 52)\<close>.
\<close>

definition round64 :: "real \<Rightarrow> real" where
  "round64 x =
     (if x = 0 then 0
      else let e = max \<lfloor>log 2 \<bar>x\<bar>\<rfloor> (- 1022) in
        of_int (round_half_even (x * 2 powi (52 - e))) * 2 powi (e - 52))"

text \<open>
  The relative error of one rounding is at most \<open>unit_roundoff\<close>, and below the normal
  range the absolute error is at most \<open>underflow_unit\<close>.
\<close>

definition unit_roundoff :: real where
  "unit_roundoff = 2 powi (- 53)"

definition underflow_unit :: real where
  "underflow_unit = 2 powi (- 1075)"

section \<open>Easing functions (easing.ts)\<close>

type_synonym EasingFunction = "real \<Rightarrow> real"

definition linear_easing :: EasingFunction where
  "linear_easing t = t"

definition easeInQuad :: EasingFunction where
  "easeInQuad t = t * t"

definition easeOutQuad :: EasingFunction where
  "easeOutQuad t = t * (2 - t)"

definition easeInOutQuad :: EasingFunction where
  "easeInOutQuad t = (if t < 0.5 then 2 * t * t else - 1 + (4 - 2 * t) * t)"

definition easeInCubic :: EasingFunction where
  "easeInCubic t = t * t * t"

text \<open>
  \<^verbatim>\<open>--t * t * t + 1\<close>: the prefix decrement changes \<open>t\<close> before the two later reads
  of it, so all three factors are the decremented value.
\<close>

definition easeOutCubic :: EasingFunction where
  "easeOutCubic t = (let t' = t - 1 in t' * t' * t' + 1)"

definition easeInOutCubic :: EasingFunction where
  "easeInOutCubic t =
     (if t < 0.5 then 4 * t * t * t else (t - 1) * (2 * t - 2) * (2 * t - 2) + 1)"

definition easeOutExpo :: EasingFunction where
  "easeOutExpo t = (if t = 1 then 1 else 1 - 2 powr (- 10 * t))"

definition easeInOutExpo :: EasingFunction where
  "easeInOutExpo t =
     (if t = 0 then 0
      else if t = 1 then 1
      else if t < 0.5 then 2 powr (20 * t - 10) / 2
      else (2 - 2 powr (- 20 * t + 10)) / 2)"

definition smoothStep :: EasingFunction where
  "smoothStep t = t * t * (3 - 2 * t)"

definition smootherStep :: EasingFunction where
  "smootherStep t = t * t * t * (t * (t * 6 - 15) + 10)"

text \<open>The table \<open>easings\<close>: an object literal, here the list of its keys and values.\<close>

definition easings :: "(string \<times> EasingFunction) list" where
  "easings =
     [(''linear'', linear_easing),
      (''easeInQuad'', easeInQuad),
      (''easeOutQuad'', easeOutQuad),
      (''easeInOutQuad'', easeInOutQuad),
      (''easeInCubic'', easeInCubic),
      (''easeOutCubic'', easeOutCubic),
      (''easeInOutCubic'', easeInOutCubic),
      (''easeOutExpo'', easeOutExpo),
      (''easeInOutExpo'', easeInOutExpo),
      (''smoothStep'', smoothStep),
      (''smootherStep'', smootherStep)]"

subsection \<open>cubicBezier\<close>

definition sampleCurveX :: "real \<Rightarrow> real \<Rightarrow> real \<Rightarrow> real" where
  "sampleCurveX x1 x2 t =
     ((1 - 3 * x2 + 3 * x1) * t + (3 * x2 - 6 * x1)) * t + 3 * x1 * t"

definition sampleCurveY :: "real \<Rightarrow> real \<Rightarrow> real \<Rightarrow> real" where
  "sampleCurveY y1 y2 t =
     ((1 - 3 * y2 + 3 * y1) * t + (3 * y2 - 6 * y1)) * t + 3 * y1 * t"

definition sampleCurveDerivativeX :: "real \<Rightarrow> real \<Rightarrow> real \<Rightarrow> real" where
  "sampleCurveDerivativeX x1 x2 t =
     3 * (1 - 3 * x2 + 3 * x1) * t * t + 2 * (3 * x2 - 6 * x1) * t + 3 * x1"

text \<open>
  The \<^verbatim>\<open>for\<close> loop of \<open>solveCurveX\<close>; the \<open>nat\<close> argument is the number of
  iterations still allowed (\<open>8 - i\<close>).  \<^verbatim>\<open>return t\<close> inside the loop and
  \<^verbatim>\<open>break\<close> both end with the current \<open>t\<close>.
\<close>

fun solveCurveX_loop :: "real \<Rightarrow> real \<Rightarrow> real \<Rightarrow> nat \<Rightarrow> real \<Rightarrow> real" where
  "solveCurveX_loop x1 x2 x 0 t = t"
| "solveCurveX_loop x1 x2 x (Suc n) t =
     (let xEst = sampleCurveX x1 x2 t - x in
      if \<bar>xEst\<bar> < 0.001 then t
      else let d = sampleCurveDerivativeX x1 x2 t in
        if \<bar>d\<bar> < 0.000001 then t
        else solveCurveX_loop x1 x2 x n (t - xEst / d))"

definition solveCurveX :: "real \<Rightarrow> real \<Rightarrow> real \<Rightarrow> real" where
  "solveCurveX x1 x2 x = solveCurveX_loop x1 x2 x 8 x"

definition cubicBezier :: "real \<Rightarrow> real \<Rightarrow> real \<Rightarrow> real \<Rightarrow> EasingFunction" where
  "cubicBezier x1 y1 x2 y2 = (\<lambda>x. sampleCurveY y1 y2 (solveCurveX x1 x2 x))"

subsection \<open>applyEasing\<close>

text \<open>
  The argument \<open>easing\<close> is a name or a function.  \<open>easings[easing]\<close> indexes a plain
  object: it finds the eleven keys of the table and, for any other name, what the object
  inherits from \<open>Object.prototype\<close>; for a name found in neither it is \<open>undefined\<close>,
  and calling \<open>undefined\<close> throws a \<open>TypeError\<close>.
\<close>

datatype Easing = Name string | Function EasingFunction

datatype js_error = TypeError

text \<open>
  What a call can return: a number, or one of the values that the inherited functions
  return (a \<open>Number\<close> object wrapping a number, a string, a boolean).
\<close>

datatype js_value = JsNumber real | JsNumberObject real | JsString string | JsBoolean bool

text \<open>
  The properties of \<open>Object.prototype\<close> (ECMAScript), each called the way \<open>applyEasing\<close>
  calls \<open>easingFn\<close>: as a plain function, so with \<open>this\<close> undefined, on one number.
  \<open>constructor\<close> is \<open>Object\<close> and wraps the number; \<open>toString\<close> and \<open>isPrototypeOf\<close>
  return without looking at \<open>this\<close>; the others convert \<open>this\<close> to an object first, which
  throws a \<open>TypeError\<close>; \<open>__proto__\<close> is an object, not a function, and calling it throws
  a \<open>TypeError\<close>.  The result is \<open>None\<close> for a name that is not inherited.
\<close>

definition Object_prototype_keys :: "string list" where
  "Object_prototype_keys =
     [''constructor'', ''toString'', ''isPrototypeOf'', ''valueOf'', ''toLocaleString'',
      ''hasOwnProperty'', ''propertyIsEnumerable'', ''__defineGetter__'',
      ''__defineSetter__'', ''__lookupGetter__'', ''__lookupSetter__'', ''__proto__'']"

definition Object_prototype_call :: "string \<Rightarrow> real \<Rightarrow> (js_error + js_value) option" where
  "Object_prototype_call n x =
     (if n = ''constructor'' then Some (Inr (JsNumberObject x))
      else if n = ''toString'' then Some (Inr (JsString ''[object Undefined]''))
      else if n = ''isPrototypeOf'' then Some (Inr (JsBoolean False))
      else if n \<in> set Object_prototype_keys then Some (Inl TypeError)
      else None)"

definition applyEasing :: "real \<Rightarrow> Easing \<Rightarrow> js_error + js_value" where
  "applyEasing progress easing =
     (let clampedProgress = max 0 (min 1 progress) in
      case easing of
        Function f \<Rightarrow> Inr (JsNumber (f clampedProgress))
      | Name n \<Rightarrow>
          (case map_of easings n of
             Some easingFn \<Rightarrow> Inr (JsNumber (easingFn clampedProgress))
           | None \<Rightarrow>
               (case Object_prototype_call n clampedProgress of
                  Some result \<Rightarrow> result
                | None \<Rightarrow> Inl TypeError)))"

subsection \<open>The cubic bezier easing as the specification words it\<close>

definition spec_Bx :: "real \<Rightarrow> real \<Rightarrow> real \<Rightarrow> real" where
  "spec_Bx x1 x2 u = 3 * (1 - u)\<^sup>2 * u * x1 + 3 * (1 - u) * u\<^sup>2 * x2 + u ^ 3"

definition spec_Bx' :: "real \<Rightarrow> real \<Rightarrow> real \<Rightarrow> real" where
  "spec_Bx' x1 x2 u =
     3 * (1 - u)\<^sup>2 * x1 + 6 * (1 - u) * u * (x2 - x1) + 3 * u\<^sup>2 * (1 - x2)"

fun spec_newton :: "real \<Rightarrow> real \<Rightarrow> real \<Rightarrow> nat \<Rightarrow> real \<Rightarrow> real" where
  "spec_newton x1 x2 x 0 u = u"
| "spec_newton x1 x2 x (Suc n) u =
     (if \<bar>spec_Bx x1 x2 u - x\<bar> < 0.001 then u
      else if \<bar>spec_Bx' x1 x2 u\<bar> < 0.000001 then u
      else spec_newton x1 x2 x n (u - (spec_Bx x1 x2 u - x) / spec_Bx' x1 x2 u))"

definition spec_cubicBezier :: "real \<Rightarrow> real \<Rightarrow> real \<Rightarrow> real \<Rightarrow> EasingFunction" where
  "spec_cubicBezier x1 y1 x2 y2 = (\<lambda>x. spec_Bx y1 y2 (spec_newton x1 x2 x 8 x))"

section \<open>Segment tracking (PathSegment.ts)\<close>

text \<open>
  The optional \<open>label\<close> is kept; the opaque \<open>data\<close> field plays no part in tracking
  and is left out.
\<close>

record PathSegment =
  seg_id :: string
  seg_start :: real
  seg_end :: real
  seg_label :: "string option"

datatype SegmentEventType = Enter | Exit | Progress

record SegmentEvent =
  ev_type :: SegmentEventType
  segment :: PathSegment
  segmentProgress :: real
  pathProgress :: real
  direction :: int

text \<open>
  A callback is a JavaScript function: it has an identity (\<open>cb_ref\<close>, what \<^verbatim>\<open>!==\<close>
  compares) and a body.  The bodies modelled here may call unsubscribe functions that
  \<open>subscribe\<close> returned earlier: \<open>cb_unsubs\<close> lists them, each as the segment id and the
  callback identity its closure captured.  Bodies that add or remove segments, subscribe,
  throw, or call \<open>update\<close> are outside the model.
\<close>

datatype SegmentEventCallback =
  Callback (cb_ref: nat) (cb_unsubs: "(string \<times> nat) list")

record SegmentTracker =
  segments :: "PathSegment list"
  activeSegments :: "string set"
  callbacks :: "string \<rightharpoonup> SegmentEventCallback list"
  lastProgress :: real

text \<open>What a run of the tracker does, in order.\<close>

datatype tracker_step =
    Emitted string SegmentEvent
  | Invoked string nat SegmentEvent
  | Unsubscribed string nat

definition new_SegmentTracker :: "PathSegment list \<Rightarrow> SegmentTracker" where
  "new_SegmentTracker segs =
     \<lparr>segments = segs, activeSegments = {}, callbacks = Map.empty, lastProgress = 0\<rparr>"

definition addSegment :: "PathSegment \<Rightarrow> SegmentTracker \<Rightarrow> SegmentTracker" where
  "addSegment s t =
     t\<lparr>segments := segments t @ [s], callbacks := (callbacks t)(seg_id s \<mapsto> [])\<rparr>"

definition removeSegment :: "string \<Rightarrow> SegmentTracker \<Rightarrow> SegmentTracker" where
  "removeSegment i t =
     t\<lparr>segments := filter (\<lambda>s. seg_id s \<noteq> i) (segments t),
       callbacks := (callbacks t)(i := None),
       activeSegments := activeSegments t - {i}\<rparr>"

text \<open>\<^verbatim>\<open>this.callbacks.get(segmentId) || []\<close>\<close>

definition callbacks_of :: "SegmentTracker \<Rightarrow> string \<Rightarrow> SegmentEventCallback list" where
  "callbacks_of t segmentId = (case callbacks t segmentId of None \<Rightarrow> [] | Some cbs \<Rightarrow> cbs)"

text \<open>
  \<open>subscribe\<close> returns the new tracker; the unsubscribe function it returns in the source
  is \<open>unsubscribe segmentId (cb_ref callback)\<close>.
\<close>

definition subscribe :: "string \<Rightarrow> SegmentEventCallback \<Rightarrow> SegmentTracker \<Rightarrow> SegmentTracker" where
  "subscribe segmentId callback t =
     t\<lparr>callbacks := (callbacks t)(segmentId \<mapsto> callbacks_of t segmentId @ [callback])\<rparr>"

definition unsubscribe :: "string \<Rightarrow> nat \<Rightarrow> SegmentTracker \<Rightarrow> SegmentTracker" where
  "unsubscribe segmentId r t =
     t\<lparr>callbacks :=
         (callbacks t)(segmentId \<mapsto> filter (\<lambda>cb. cb_ref cb \<noteq> r) (callbacks_of t segmentId))\<rparr>"

definition isActive :: "string \<Rightarrow> SegmentTracker \<Rightarrow> bool" where
  "isActive segmentId t = (segmentId \<in> activeSegments t)"

definition getActiveSegments :: "SegmentTracker \<Rightarrow> PathSegment list" where
  "getActiveSegments t = filter (\<lambda>s. seg_id s \<in> activeSegments t) (segments t)"

definition calcSegmentProgress :: "real \<Rightarrow> PathSegment \<Rightarrow> real" where
  "calcSegmentProgress progress s =
     (let range = seg_end s - seg_start s in
      if range = 0 then 0 else max 0 (min 1 ((progress - seg_start s) / range)))"

text \<open>
  Calling a callback runs its body: the unsubscribe functions it calls, in order.
\<close>

definition call_callback ::
  "string \<Rightarrow> SegmentEventCallback \<Rightarrow> SegmentEvent \<Rightarrow> SegmentTracker
     \<Rightarrow> SegmentTracker \<times> tracker_step list" where
  "call_callback segmentId cb ev t =
     (fold (\<lambda>(i, r). unsubscribe i r) (cb_unsubs cb) t,
      Invoked segmentId (cb_ref cb) ev # map (\<lambda>(i, r). Unsubscribed i r) (cb_unsubs cb))"

text \<open>
  \<open>callbacks.forEach\<close> walks the array that \<open>emit\<close> read from the map.  An unsubscribe
  stores a new, filtered array in the map and leaves that one as it was.
\<close>

fun forEach_callbacks ::
  "string \<Rightarrow> SegmentEventCallback list \<Rightarrow> SegmentEvent \<Rightarrow> SegmentTracker
     \<Rightarrow> SegmentTracker \<times> tracker_step list" where
  "forEach_callbacks segmentId [] ev t = (t, [])"
| "forEach_callbacks segmentId (cb # cbs) ev t =
     (let (t1, tr1) = call_callback segmentId cb ev t;
          (t2, tr2) = forEach_callbacks segmentId cbs ev t1
      in (t2, tr1 @ tr2))"

definition emit ::
  "string \<Rightarrow> SegmentEvent \<Rightarrow> SegmentTracker \<Rightarrow> SegmentTracker \<times> tracker_step list" where
  "emit segmentId ev t =
     (let (t', tr) = forEach_callbacks segmentId (callbacks_of t segmentId) ev t
      in (t', Emitted segmentId ev # tr))"

text \<open>The body of the \<^verbatim>\<open>for\<close> loop of \<open>update\<close>, for one segment.\<close>

definition update_segment ::
  "PathSegment \<Rightarrow> real \<Rightarrow> int \<Rightarrow> SegmentTracker \<Rightarrow> SegmentTracker \<times> tracker_step list" where
  "update_segment s progress dir t =
     (let wasActive = (seg_id s \<in> activeSegments t);
          isActive = (progress \<ge> seg_start s \<and> progress \<le> seg_end s)
      in
        if isActive \<and> \<not> wasActive then
          emit (seg_id s)
            \<lparr>ev_type = Enter, segment = s,
             segmentProgress = calcSegmentProgress progress s,
             pathProgress = progress, direction = dir\<rparr>
            (t\<lparr>activeSegments := insert (seg_id s) (activeSegments t)\<rparr>)
        else if \<not> isActive \<and> wasActive then
          emit (seg_id s)
            \<lparr>ev_type = Exit, segment = s,
             segmentProgress = (if dir = 1 then 1 else 0),
             pathProgress = progress, direction = dir\<rparr>
            (t\<lparr>activeSegments := activeSegments t - {seg_id s}\<rparr>)
        else if isActive then
          emit (seg_id s)
            \<lparr>ev_type = Progress, segment = s,
             segmentProgress = calcSegmentProgress progress s,
             pathProgress = progress, direction = dir\<rparr>
            t
        else (t, []))"

fun update_loop ::
  "PathSegment list \<Rightarrow> real \<Rightarrow> int \<Rightarrow> SegmentTracker \<Rightarrow> SegmentTracker \<times> tracker_step list" where
  "update_loop [] progress dir t = (t, [])"
| "update_loop (s # ss) progress dir t =
     (let (t1, tr1) = update_segment s progress dir t;
          (t2, tr2) = update_loop ss progress dir t1
      in (t2, tr1 @ tr2))"

definition update :: "real \<Rightarrow> SegmentTracker \<Rightarrow> SegmentTracker \<times> tracker_step list" where
  "update progress t =
     (let dir = (if progress \<ge> lastProgress t then 1 else - 1);
          (t', tr) = update_loop (segments t) progress dir t
      in (t'\<lparr>lastProgress := progress\<rparr>, tr))"

text \<open>Successive calls of \<open>update\<close>, one per progress value.\<close>

fun updates :: "real list \<Rightarrow> SegmentTracker \<Rightarrow> SegmentTracker \<times> tracker_step list" where
  "updates [] t = (t, [])"
| "updates (p # ps) t =
     (let (t1, tr1) = update p t;
          (t2, tr2) = updates ps t1
      in (t2, tr1 @ tr2))"

text \<open>The events passed to \<open>emit\<close>, in order.\<close>

fun emitted :: "tracker_step list \<Rightarrow> SegmentEvent list" where
  "emitted [] = []"
| "emitted (Emitted i ev # tr) = ev # emitted tr"
| "emitted (_ # tr) = emitted tr"

section \<open>The progress engine (PathFollowerContext.tsx)\<close>

record ScrollState =
  scrollTop :: real
  scrollLeft :: real
  scrollHeight :: real
  clientHeight :: real
  clientWidth :: real

text \<open>
  The snapshot published each tick.  The fields read from the SVG path and the screen
  transform (position, screenPosition, angle, viewport) are left out.
\<close>

record PathFollowerState =
  scrollProgress :: real
  state_pathProgress :: real
  easedProgress :: js_value
  state_direction :: int
  velocity :: real

definition DEFAULT_PATH_FOLLOWER_STATE :: PathFollowerState where
  "DEFAULT_PATH_FOLLOWER_STATE =
     \<lparr>scrollProgress = 0, state_pathProgress = 0, easedProgress = JsNumber 0,
      state_direction = 1, velocity = 0\<rparr>"

text \<open>
  A state subscriber is a function too: an identity and a body, which may call the
  unsubscribe functions of the subscribers listed in \<open>sub_unsubs\<close>.
\<close>

datatype PathFollowerSubscriber =
  Subscriber (sub_ref: nat) (sub_unsubs: "nat list")

datatype notify_step =
    Notified nat PathFollowerState
  | StateUnsubscribed nat

record PathFollowerProviderProps =
  easing_prop :: "Easing option"
  smoothing_prop :: "real option"
  smooth_prop :: "bool option"
  segments_prop :: "PathSegment list option"

text \<open>
  The refs of the provider.  \<open>subscribersRef\<close> is a \<open>Set\<close>: a list without repetition,
  in insertion order.
\<close>

record PathFollower =
  cfg_easing :: Easing
  cfg_smoothing :: real
  cfg_smooth :: bool
  smoothProgressRef :: real
  lastProgressRef :: real
  lastTimeRef :: real
  subscribersRef :: "PathFollowerSubscriber list"
  segmentTrackerRef :: SegmentTracker
  stateRef :: PathFollowerState

text \<open>Mounting the provider; \<open>now\<close> is what \<open>Date.now()\<close> returns then.\<close>

definition PathFollowerProvider :: "PathFollowerProviderProps \<Rightarrow> real \<Rightarrow> PathFollower" where
  "PathFollowerProvider props now =
     \<lparr>cfg_easing = (case easing_prop props of None \<Rightarrow> Name ''linear'' | Some e \<Rightarrow> e),
      cfg_smoothing = (case smoothing_prop props of None \<Rightarrow> round64 0.15 | Some f \<Rightarrow> f),
      cfg_smooth = (case smooth_prop props of None \<Rightarrow> True | Some b \<Rightarrow> b),
      smoothProgressRef = 0,
      lastProgressRef = 0,
      lastTimeRef = now,
      subscribersRef = [],
      segmentTrackerRef =
        new_SegmentTracker (case segments_prop props of None \<Rightarrow> [] | Some segs \<Rightarrow> segs),
      stateRef = DEFAULT_PATH_FOLLOWER_STATE\<rparr>"

text \<open>\<open>Set.delete\<close> by identity.\<close>

definition delete_subscribers ::
  "nat list \<Rightarrow> PathFollowerSubscriber list \<Rightarrow> PathFollowerSubscriber list" where
  "delete_subscribers rs subs = filter (\<lambda>cb. sub_ref cb \<notin> set rs) subs"

text \<open>
  \<open>Set.forEach\<close> visits the entries in insertion order and skips an entry deleted before
  its turn.  The first argument is the entries still to visit, the third the set.
\<close>

function notify_loop ::
  "PathFollowerSubscriber list \<Rightarrow> PathFollowerState \<Rightarrow> PathFollowerSubscriber list
     \<Rightarrow> PathFollowerSubscriber list \<times> notify_step list" where
  "notify_loop [] st subs = (subs, [])"
| "notify_loop (cb # pending) st subs =
     (let (subs', tr) =
            notify_loop (delete_subscribers (sub_unsubs cb) pending) st
              (delete_subscribers (sub_unsubs cb) subs)
      in (subs', Notified (sub_ref cb) st # map StateUnsubscribed (sub_unsubs cb) @ tr))"
  by pat_completeness auto
termination
  by (relation "measure (\<lambda>(pending, st, subs). length pending)")
     (auto simp: delete_subscribers_def less_Suc_eq_le)

definition notify ::
  "PathFollowerState \<Rightarrow> PathFollowerSubscriber list
     \<Rightarrow> PathFollowerSubscriber list \<times> notify_step list" where
  "notify st subs = notify_loop subs st subs"

text \<open>
  The provider's \<open>subscribe\<close>: add to the set, then call the callback at once with the
  current state.  The unsubscribe function it returns is \<open>delete_subscribers [sub_ref cb]\<close>.
\<close>

definition subscribe_state ::
  "PathFollowerSubscriber \<Rightarrow> PathFollower \<Rightarrow> PathFollower \<times> notify_step list" where
  "subscribe_state cb e =
     (let subs = (if sub_ref cb \<in> sub_ref ` set (subscribersRef e) then subscribersRef e
                  else subscribersRef e @ [cb])
      in (e\<lparr>subscribersRef := delete_subscribers (sub_unsubs cb) subs\<rparr>,
          Notified (sub_ref cb) (stateRef e) # map StateUnsubscribed (sub_unsubs cb)))"

text \<open>Successive fan-outs, one per published state.\<close>

fun notifies ::
  "PathFollowerState list \<Rightarrow> PathFollowerSubscriber list
     \<Rightarrow> PathFollowerSubscriber list \<times> notify_step list" where
  "notifies [] subs = (subs, [])"
| "notifies (st # sts) subs =
     (let (subs1, tr1) = notify st subs;
          (subs2, tr2) = notifies sts subs1
      in (subs2, tr1 @ tr2))"

text \<open>Lines 164-165 of \<open>tick\<close>.\<close>

definition rawProgress :: "ScrollState \<Rightarrow> real" where
  "rawProgress scrollState =
     (let maxScroll = round64 (scrollHeight scrollState - clientHeight scrollState) in
      if maxScroll > 0 then round64 (scrollTop scrollState / maxScroll) else 0)"

text \<open>
  Lines 167-174 of \<open>tick\<close>: the new value of \<open>smoothProgressRef\<close> and \<open>progress\<close>.
  The subtraction, the multiplication and the addition of \<^verbatim>\<open>+=\<close> each round.
\<close>

definition smoothed_progress :: "bool \<Rightarrow> real \<Rightarrow> real \<Rightarrow> real \<Rightarrow> real \<times> real" where
  "smoothed_progress smooth smoothing raw smoothProgress =
     (if smooth then
        (let s = round64 (smoothProgress + round64 (round64 (raw - smoothProgress) * smoothing))
         in (s, s))
      else (smoothProgress, raw))"

text \<open>
  One \<open>tick\<close> while the engine runs.  The scroll state is \<open>None\<close> when the path, the
  SVG element or the scroll target is missing; \<open>now\<close> is \<open>Date.now()\<close>.  A \<open>TypeError\<close>
  thrown by \<open>applyEasing\<close> ends the tick (and with it the frame loop).
\<close>

definition tick ::
  "ScrollState option \<Rightarrow> real \<Rightarrow> PathFollower
     \<Rightarrow> js_error + (PathFollower \<times> tracker_step list \<times> notify_step list)" where
  "tick scroll now e =
     (case scroll of
        None \<Rightarrow> Inr (e, [], [])
      | Some scrollState \<Rightarrow>
          (let (smoothProgress, progress) =
                 smoothed_progress (cfg_smooth e) (cfg_smoothing e)
                   (rawProgress scrollState) (smoothProgressRef e)
           in case applyEasing progress (cfg_easing e) of
                Inl err \<Rightarrow> Inl err
              | Inr eased \<Rightarrow>
                  (let dt = (now - lastTimeRef e) / 1000;
                       v = (if dt > 0 then \<bar>progress - lastProgressRef e\<bar> / dt else 0);
                       dir = (if progress \<ge> lastProgressRef e then 1 else - 1);
                       (tracker, ttr) = update progress (segmentTrackerRef e);
                       st = \<lparr>scrollProgress = progress, state_pathProgress = progress,
                             easedProgress = eased, state_direction = dir, velocity = v\<rparr>;
                       (subs, ntr) = notify st (subscribersRef e)
                   in Inr (e\<lparr>smoothProgressRef := smoothProgress,
                              lastProgressRef := progress,
                              lastTimeRef := now,
                              segmentTrackerRef := tracker,
                              stateRef := st,
                              subscribersRef := subs\<rparr>, ttr, ntr))))"

text \<open>
  The frame loop: one \<open>tick\<close> per animation frame, each with the scroll state and the
  time it finds; an exception ends the loop.
\<close>

fun ticks :: "(ScrollState \<times> real) list \<Rightarrow> PathFollower \<Rightarrow> js_error + PathFollower" where
  "ticks [] e = Inr e"
| "ticks ((scrollState, now) # frames) e =
     (case tick (Some scrollState) now e of
        Inl err \<Rightarrow> Inl err
      | Inr (e', ttr, ntr) \<Rightarrow> ticks frames e')"

text \<open>
  The two constants of the smoothing bound under rounding: the factor by which one tick
  shrinks the distance to the raw value, and what rounding adds to it in one tick.
\<close>

definition contraction :: "real \<Rightarrow> real" where
  "contraction f = (1 + unit_roundoff) * (1 - f + unit_roundoff * (2 + unit_roundoff))"

definition rounding_floor :: "real \<Rightarrow> real" where
  "rounding_floor r =
     unit_roundoff * \<bar>r\<bar> + underflow_unit * (1 + (1 + unit_roundoff) * (2 + unit_roundoff))"

section \<open>Properties of traces\<close>

text \<open>
  \<open>never_after_unsubscribe dead tr\<close>: no step of \<open>tr\<close> invokes a segment callback whose
  unsubscribe function was called before that step (\<open>dead\<close> holds the ones called before
  \<open>tr\<close> starts).
\<close>

fun never_after_unsubscribe :: "(string \<times> nat) list \<Rightarrow> tracker_step list \<Rightarrow> bool" where
  "never_after_unsubscribe dead [] = True"
| "never_after_unsubscribe dead (Emitted i ev # tr) = never_after_unsubscribe dead tr"
| "never_after_unsubscribe dead (Unsubscribed i r # tr) =
     never_after_unsubscribe ((i, r) # dead) tr"
| "never_after_unsubscribe dead (Invoked i r ev # tr) =
     ((i, r) \<notin> set dead \<and> never_after_unsubscribe dead tr)"

text \<open>
  The weaker property: an unsubscribe counts from the next fan-out on.  \<open>dead\<close> holds the
  subscriptions cancelled before the current \<open>emit\<close> started, \<open>recent\<close> the ones
  cancelled since.
\<close>

fun not_in_later_fanout ::
  "(string \<times> nat) list \<Rightarrow> (string \<times> nat) list \<Rightarrow> tracker_step list \<Rightarrow> bool" where
  "not_in_later_fanout dead recent [] = True"
| "not_in_later_fanout dead recent (Emitted i ev # tr) =
     not_in_later_fanout (recent @ dead) [] tr"
| "not_in_later_fanout dead recent (Unsubscribed i r # tr) =
     not_in_later_fanout dead ((i, r) # recent) tr"
| "not_in_later_fanout dead recent (Invoked i r ev # tr) =
     ((i, r) \<notin> set dead \<and> not_in_later_fanout dead recent tr)"

text \<open>The same for state subscribers: none is notified after its unsubscribe call.\<close>

fun never_notified_after :: "nat list \<Rightarrow> notify_step list \<Rightarrow> bool" where
  "never_notified_after dead [] = True"
| "never_notified_after dead (StateUnsubscribed r # tr) = never_notified_after (r # dead) tr"
| "never_notified_after dead (Notified r st # tr) =
     (r \<notin> set dead \<and> never_notified_after dead tr)"

text \<open>Helpers for the proofs about traces.\<close>

text \<open>The identities of the callbacks registered for a segment id.\<close>

definition subscribed :: "SegmentTracker \<Rightarrow> string \<Rightarrow> nat set" where
  "subscribed t i = cb_ref ` set (callbacks_of t i)"

text \<open>The subscriptions whose unsubscribe function a trace calls.\<close>

definition unsubscribed_in :: "tracker_step list \<Rightarrow> (string \<times> nat) set" where
  "unsubscribed_in tr = {(i, r). Unsubscribed i r \<in> set tr}"

text \<open>The two lists of \<open>not_in_later_fanout\<close> after a trace.\<close>

fun fanout_after ::
  "(string \<times> nat) list \<Rightarrow> (string \<times> nat) list \<Rightarrow> tracker_step list
     \<Rightarrow> (string \<times> nat) list \<times> (string \<times> nat) list" where
  "fanout_after dead recent [] = (dead, recent)"
| "fanout_after dead recent (Emitted i ev # tr) = fanout_after (recent @ dead) [] tr"
| "fanout_after dead recent (Unsubscribed i r # tr) = fanout_after dead ((i, r) # recent) tr"
| "fanout_after dead recent (Invoked i r ev # tr) = fanout_after dead recent tr"

text \<open>The list of \<open>never_notified_after\<close> after a trace.\<close>

fun unsubscribed_after :: "nat list \<Rightarrow> notify_step list \<Rightarrow> nat list" where
  "unsubscribed_after dead [] = dead"
| "unsubscribed_after dead (StateUnsubscribed r # tr) = unsubscribed_after (r # dead) tr"
| "unsubscribed_after dead (Notified r st # tr) = unsubscribed_after dead tr"

section \<open>The segment events as the specification words them\<close>

definition spec_segmentProgress :: "real \<Rightarrow> PathSegment \<Rightarrow> real" where
  "spec_segmentProgress progress s =
     (if seg_end s = seg_start s then 0
      else max 0 (min 1 ((progress - seg_start s) / (seg_end s - seg_start s))))"

text \<open>
  The one event, or none, of a segment in a call of \<open>update\<close>, from the active set
  \<open>active\<close> as it was before the call.
\<close>

definition spec_event :: "string set \<Rightarrow> int \<Rightarrow> real \<Rightarrow> PathSegment \<Rightarrow> SegmentEvent option" where
  "spec_event active dir progress s =
     (let inside = (seg_start s \<le> progress \<and> progress \<le> seg_end s);
          was = (seg_id s \<in> active)
      in
        if inside \<and> \<not> was then
          Some \<lparr>ev_type = Enter, segment = s,
                segmentProgress = spec_segmentProgress progress s,
                pathProgress = progress, direction = dir\<rparr>
        else if was \<and> \<not> inside then
          Some \<lparr>ev_type = Exit, segment = s,
                segmentProgress = (if dir = 1 then 1 else 0),
                pathProgress = progress, direction = dir\<rparr>
        else if was \<and> inside then
          Some \<lparr>ev_type = Progress, segment = s,
                segmentProgress = spec_segmentProgress progress s,
                pathProgress = progress, direction = dir\<rparr>
        else None)"

section \<open>Example inputs\<close>

definition segment_a :: PathSegment where
  "segment_a = \<lparr>seg_id = ''a'', seg_start = 0, seg_end = 0.6, seg_label = None\<rparr>"

definition segment_b :: PathSegment where
  "segment_b = \<lparr>seg_id = ''b'', seg_start = 0.4, seg_end = 1, seg_label = None\<rparr>"

text \<open>
  Two overlapping segments, \<open>a\<close> active after an earlier update to \<open>0.3\<close>, one callback
  on each.
\<close>

definition example_tracker :: SegmentTracker where
  "example_tracker =
     \<lparr>segments = [segment_a, segment_b],
      activeSegments = {''a''},
      callbacks = [''a'' \<mapsto> [Callback 1 []], ''b'' \<mapsto> [Callback 2 []]],
      lastProgress = 0.3\<rparr>"

text \<open>
  One segment with two callbacks; the first one's body calls the unsubscribe function of
  the second.
\<close>

definition unsubscribing_tracker :: SegmentTracker where
  "unsubscribing_tracker =
     subscribe ''a'' (Callback 2 [])
       (subscribe ''a'' (Callback 1 [(''a'', 2)]) (new_SegmentTracker [segment_a]))"

text \<open>Two segments added under one id.\<close>

definition segment_a_early :: PathSegment where
  "segment_a_early = \<lparr>seg_id = ''a'', seg_start = 0, seg_end = 0.3, seg_label = None\<rparr>"

definition segment_a_late :: PathSegment where
  "segment_a_late = \<lparr>seg_id = ''a'', seg_start = 0.5, seg_end = 1, seg_label = None\<rparr>"

definition shared_id_tracker :: SegmentTracker where
  "shared_id_tracker =
     addSegment segment_a_late (addSegment segment_a_early (new_SegmentTracker []))"

text \<open>
  An engine with smoothing factor \<open>1\<close> and the linear easing, and two scroll states: \<open>70\<close>
  and \<open>10\<close> of a scroll range of \<open>100\<close>.
\<close>

definition factor_one_engine :: PathFollower where
  "factor_one_engine =
     PathFollowerProvider
       \<lparr>easing_prop = None, smoothing_prop = Some 1, smooth_prop = None,
        segments_prop = None\<rparr> 0"

definition scroll_at :: "real \<Rightarrow> ScrollState" where
  "scroll_at y =
     \<lparr>scrollTop = y, scrollLeft = 0, scrollHeight = 200, clientHeight = 100,
      clientWidth = 100\<rparr>"

definition bounce_props :: PathFollowerProviderProps where
  "bounce_props =
     \<lparr>easing_prop = Some (Name ''bounce''), smoothing_prop = None, smooth_prop = None,
      segments_prop = None\<rparr>"

section \<open>Binary64 rounding\<close>

lemma round_half_even_error: "\<bar>of_int (round_half_even y) - y\<bar> \<le> 1/2"
  unfolding round_half_even_def Let_def by (auto simp: abs_le_iff)

lemma round_half_even_nonpos: "y \<le> 0 \<Longrightarrow> round_half_even y \<le> 0"
  unfolding round_half_even_def Let_def by (auto simp: not_less)

text \<open>Evaluation at a number whose exponent \<open>e\<close> is known.\<close>

lemma round64_eval:
  assumes "2 powi e \<le> \<bar>x\<bar>" and "\<bar>x\<bar> < 2 powi (e + 1)" and "- 1022 \<le> e"
  shows "round64 x = of_int (round_half_even (x * 2 powi (52 - e))) * 2 powi (e - 52)"
proof -
  have "(0::real) < 2 powi e" by simp
  with assms(1) have pos: "0 < \<bar>x\<bar>" by linarith
  have a: "2 powr real_of_int e \<le> \<bar>x\<bar>"
    using assms(1) by (simp add: powr_real_of_int')
  have "2 powr real_of_int (e + 1) = (2::real) powi (e + 1)"
    by (rule powr_real_of_int') simp_all
  with assms(2) have b: "\<bar>x\<bar> < 2 powr (real_of_int e + 1)"
    by simp
  from a b pos have "\<lfloor>log 2 \<bar>x\<bar>\<rfloor> = e"
    by (simp add: floor_log_eq_powr_iff)
  with pos assms(3) show ?thesis
    by (simp add: round64_def Let_def max_def)
qed

lemma round64_nonpos: "x \<le> 0 \<Longrightarrow> round64 x \<le> 0"
  by (auto simp: round64_def Let_def mult_le_0_iff intro!: round_half_even_nonpos)

lemma round64_examples:
  "round64 100 = 100" "round64 (- 1/2) = - 1/2" "round64 (3/2) = 3/2"
  "round64 (7/10) = 6305039478318694 / 2 ^ 53"
  "round64 (1/10) = 7205759403792794 / 2 ^ 56"
  "round64 1 = 1"
proof -
  show "round64 100 = 100"
    by (subst round64_eval [where e = 6]) (simp_all add: round_half_even_def)
  show "round64 (- 1/2) = - 1/2"
    by (subst round64_eval [where e = "- 1"]) (simp_all add: round_half_even_def)
  show "round64 (3/2) = 3/2"
    by (subst round64_eval [where e = 0]) (simp_all add: round_half_even_def)
  show "round64 (7/10) = 6305039478318694 / 2 ^ 53"
    by (subst round64_eval [where e = "- 1"]) (simp_all add: round_half_even_def)
  show "round64 (1/10) = 7205759403792794 / 2 ^ 56"
    by (subst round64_eval [where e = "- 4"]) (simp_all add: round_half_even_def)
  show "round64 1 = 1"
    by (subst round64_eval [where e = 0]) (simp_all add: round_half_even_def)
qed

lemma unit_roundoff_nonneg: "0 \<le> unit_roundoff" "0 \<le> underflow_unit"
  by (simp_all add: unit_roundoff_def underflow_unit_def)

lemma round64_error: "\<bar>round64 x - x\<bar> \<le> unit_roundoff * \<bar>x\<bar> + underflow_unit"
proof (cases "x = 0")
  case True
  then show ?thesis using unit_roundoff_nonneg by (simp add: round64_def)
next
  case False
  define L where "L = \<lfloor>log 2 \<bar>x\<bar>\<rfloor>"
  define e where "e = max L (- 1022)"
  define y where "y = x * 2 powi (52 - e)"
  have scale: "(2::real) powi (52 - e) * 2 powi (e - 52) = 1"
    by (simp flip: power_int_add)
  have r: "round64 x = of_int (round_half_even y) * 2 powi (e - 52)"
    using False by (simp add: round64_def Let_def y_def e_def L_def)
  have x: "x = y * 2 powi (e - 52)"
    using scale by (simp add: y_def mult.assoc)
  have "(of_int (round_half_even y) - y) * 2 powi (e - 52) =
          of_int (round_half_even y) * 2 powi (e - 52) - y * 2 powi (e - 52)"
    by (simp add: algebra_simps)
  with r x have "round64 x - x = (of_int (round_half_even y) - y) * 2 powi (e - 52)"
    by simp
  then have "\<bar>round64 x - x\<bar> = \<bar>of_int (round_half_even y) - y\<bar> * 2 powi (e - 52)"
    by (simp add: abs_mult)
  also have "\<dots> \<le> 1/2 * 2 powi (e - 52)"
    by (intro mult_right_mono round_half_even_error) simp
  also have "1/2 * (2::real) powi (e - 52) = 2 powi (e - 53)"
    using power_int_add [of "2::real" "e - 52" "- 1"] by simp
  finally have bound: "\<bar>round64 x - x\<bar> \<le> 2 powi (e - 53)" .
  show ?thesis
  proof (cases "- 1022 \<le> L")
    case True
    then have eL: "e = L" by (simp add: e_def)
    from False have pos: "0 < \<bar>x\<bar>" by simp
    have "2 powr real_of_int L \<le> \<bar>x\<bar>"
      using pos floor_log_eq_powr_iff [of "\<bar>x\<bar>" 2 L] by (simp add: L_def)
    then have le: "2 powi L \<le> \<bar>x\<bar>"
      by (simp add: powr_real_of_int')
    have "(2::real) powi (e - 53) = 2 powi (- 53) * 2 powi L"
      unfolding eL using power_int_add [of "2::real" "- 53" L] by (simp add: algebra_simps)
    also have "\<dots> \<le> 2 powi (- 53) * \<bar>x\<bar>"
      using le by (intro mult_left_mono) simp_all
    finally have "(2::real) powi (e - 53) \<le> unit_roundoff * \<bar>x\<bar>"
      by (simp add: unit_roundoff_def)
    with bound unit_roundoff_nonneg show ?thesis by linarith
  next
    case False
    then have "e = - 1022" by (simp add: e_def)
    then have "(2::real) powi (e - 53) = underflow_unit"
      by (simp add: underflow_unit_def)
    moreover have "0 \<le> unit_roundoff * \<bar>x\<bar>"
      using unit_roundoff_nonneg by simp
    ultimately show ?thesis using bound by linarith
  qed
qed

section \<open>Easing: boundary values\<close>

lemma easings_boundary:
  "map_of easings name = Some f \<Longrightarrow> f 0 = 0 \<and> f 1 = 1"
  unfolding easings_def
  by (auto split: if_splits simp: linear_easing_def easeInQuad_def easeOutQuad_def
      easeInOutQuad_def easeInCubic_def easeOutCubic_def easeInOutCubic_def easeOutExpo_def
      easeInOutExpo_def smoothStep_def smootherStep_def)

lemma cubicBezier_boundary:
  "cubicBezier x1 y1 x2 y2 0 = 0" "cubicBezier x1 y1 x2 y2 1 = 1"
  by (simp_all add: cubicBezier_def solveCurveX_def sampleCurveX_def sampleCurveY_def
      eval_nat_numeral)

text \<open>
  Claim C8.  Every function of the table \<open>easings\<close> maps \<open>0\<close> to \<open>0\<close> and \<open>1\<close> to \<open>1\<close>
  exactly, also through \<open>applyEasing\<close>; a function made by \<open>cubicBezier\<close>, for any control
  values, is within \<open>0.001\<close> of \<open>0\<close> at \<open>0\<close> and of \<open>1\<close> at \<open>1\<close>.
\<close>

theorem easing_boundary_law:
  "(\<forall>name f. map_of easings name = Some f \<longrightarrow>
      f 0 = 0 \<and> f 1 = 1 \<and>
      applyEasing 0 (Name name) = Inr (JsNumber 0) \<and>
      applyEasing 1 (Name name) = Inr (JsNumber 1)) \<and>
   (\<forall>x1 y1 x2 y2.
      \<bar>cubicBezier x1 y1 x2 y2 0 - 0\<bar> \<le> 0.001 \<and> \<bar>cubicBezier x1 y1 x2 y2 1 - 1\<bar> \<le> 0.001)"
  using easings_boundary by (simp add: cubicBezier_boundary applyEasing_def)

theorem easing_boundary_law_witness:
  "map_of easings ''easeOutCubic'' = Some easeOutCubic \<and>
   easeOutCubic 0 = 0 \<and> easeOutCubic 1 = 1 \<and>
   applyEasing 0 (Name ''easeOutCubic'') = Inr (JsNumber 0) \<and>
   applyEasing 1 (Name ''easeOutCubic'') = Inr (JsNumber 1)"
proof -
  have h: "map_of easings ''easeOutCubic'' = Some easeOutCubic"
    by (simp add: easings_def)
  from easing_boundary_law h show ?thesis by blast
qed

section \<open>cubicBezier against the bezier polynomials\<close>

text \<open>
  \<open>sampleCurveX\<close> multiplies by \<open>t\<close> once less than the cubic needs, so it is a
  quadratic; \<open>sampleCurveDerivativeX\<close> is the derivative of the cubic.
\<close>

lemma sampleCurveX_quadratic:
  "sampleCurveX x1 x2 t = (1 - 3 * x2 + 3 * x1) * t\<^sup>2 + (3 * x2 - 3 * x1) * t"
  by (simp add: sampleCurveX_def power2_eq_square algebra_simps)

lemma spec_Bx_cubic:
  "spec_Bx x1 x2 u = (((1 - 3 * x2 + 3 * x1) * u + (3 * x2 - 6 * x1)) * u + 3 * x1) * u"
  by (simp add: spec_Bx_def power2_eq_square power3_eq_cube algebra_simps)

lemma sampleCurveDerivativeX_spec: "sampleCurveDerivativeX x1 x2 t = spec_Bx' x1 x2 t"
  by (simp add: sampleCurveDerivativeX_def spec_Bx'_def power2_eq_square algebra_simps)

text \<open>
  Claim C3.  At the control values \<open>(0, 0, 1/3, 1)\<close> and \<open>x = 1/4\<close> the function that
  \<open>cubicBezier\<close> returns gives \<open>5/8\<close>, where the bezier easing of the claim gives about
  \<open>0.5002\<close>; already the x polynomials differ (\<open>1/2\<close> against \<open>1/4\<close> at \<open>u = 1/2\<close>).
\<close>

theorem cubicBezier_is_not_the_bezier:
  "cubicBezier 0 0 (1/3) 1 (1/4) = 5/8 \<and>
   spec_cubicBezier 0 0 (1/3) 1 (1/4) = 70607379199 / 141150208000 \<and>
   sampleCurveX 0 (1/3) (1/2) = 1/2 \<and> spec_Bx 0 (1/3) (1/2) = 1/4"
  by (simp add: cubicBezier_def solveCurveX_def sampleCurveX_def sampleCurveY_def
      spec_cubicBezier_def spec_Bx_def spec_Bx'_def eval_nat_numeral)

section \<open>Easing names that are not in the table\<close>

lemma applyEasing_unknown:
  "map_of easings n = None \<Longrightarrow> n \<notin> set Object_prototype_keys \<Longrightarrow>
     applyEasing p (Name n) = Inl TypeError"
  by (simp add: applyEasing_def Object_prototype_call_def Object_prototype_keys_def)

lemma applyEasing_inherited:
  "applyEasing p (Name ''constructor'') = Inr (JsNumberObject (max 0 (min 1 p)))"
  "applyEasing p (Name ''toString'') = Inr (JsString ''[object Undefined]'')"
  "applyEasing p (Name ''isPrototypeOf'') = Inr (JsBoolean False)"
  by (simp_all add: applyEasing_def Object_prototype_call_def easings_def)

lemma tick_TypeError:
  "(\<And>p. applyEasing p (cfg_easing e) = Inl TypeError) \<Longrightarrow>
     tick (Some scrollState) now e = Inl TypeError"
  by (simp add: tick_def split_beta)

text \<open>
  Claim C6, as stated, fails: the provider stores the name \<open>bounce\<close> unchecked, and the
  failure comes when the easing is applied, in \<open>tick\<close>, as a \<open>TypeError\<close>; the name
  \<open>constructor\<close>, which is not in the table either, never fails.
\<close>

theorem invalid_easing_name_counterexample:
  "map_of easings ''bounce'' = None \<and>
   cfg_easing (PathFollowerProvider bounce_props 0) = Name ''bounce'' \<and>
   applyEasing (1/2) (Name ''bounce'') = Inl TypeError \<and>
   tick (Some \<lparr>scrollTop = 50, scrollLeft = 0, scrollHeight = 200, clientHeight = 100,
               clientWidth = 100\<rparr>) 16 (PathFollowerProvider bounce_props 0) = Inl TypeError \<and>
   applyEasing (1/2) (Name ''constructor'') = Inr (JsNumberObject (1/2))"
proof -
  have none: "map_of easings ''bounce'' = None" by (simp add: easings_def)
  have notin: "''bounce'' \<notin> set Object_prototype_keys"
    by (simp add: Object_prototype_keys_def)
  have cfg: "cfg_easing (PathFollowerProvider bounce_props 0) = Name ''bounce''"
    by (simp add: bounce_props_def PathFollowerProvider_def)
  have app: "applyEasing p (Name ''bounce'') = Inl TypeError" for p
    using none notin by (rule applyEasing_unknown)
  have "tick (Some scrollState) 16 (PathFollowerProvider bounce_props 0) = Inl TypeError"
    for scrollState
    by (rule tick_TypeError) (simp add: cfg app)
  with none cfg app applyEasing_inherited(1) [of "1/2"] show ?thesis by simp
qed

text \<open>
  Claim C6, amended.  A name that is neither in the table nor inherited from
  \<open>Object.prototype\<close> is stored by the provider as it is; applying it fails with a
  \<open>TypeError\<close>, in \<open>applyEasing\<close> and so in every tick that has a scroll state.  The
  inherited names \<open>constructor\<close>, \<open>toString\<close> and \<open>isPrototypeOf\<close> do not fail: they
  return the clamped progress wrapped in a \<open>Number\<close> object, a string, and \<open>false\<close>.  A
  custom function is applied to the clamped progress without a look at the table.
\<close>

theorem unknown_easing_name_fails_when_applied:
  "(map_of easings n = None \<and> n \<notin> set Object_prototype_keys \<longrightarrow>
      cfg_easing (PathFollowerProvider (props\<lparr>easing_prop := Some (Name n)\<rparr>) now) = Name n \<and>
      applyEasing p (Name n) = Inl TypeError \<and>
      tick (Some scrollState) now'
        (PathFollowerProvider (props\<lparr>easing_prop := Some (Name n)\<rparr>) now) = Inl TypeError) \<and>
   applyEasing p (Name ''constructor'') = Inr (JsNumberObject (max 0 (min 1 p))) \<and>
   applyEasing p (Name ''toString'') = Inr (JsString ''[object Undefined]'') \<and>
   applyEasing p (Name ''isPrototypeOf'') = Inr (JsBoolean False) \<and>
   applyEasing p (Function f) = Inr (JsNumber (f (max 0 (min 1 p))))"
proof -
  have "tick (Some scrollState) now'
          (PathFollowerProvider (props\<lparr>easing_prop := Some (Name n)\<rparr>) now) = Inl TypeError"
    if "map_of easings n = None" "n \<notin> set Object_prototype_keys"
    by (rule tick_TypeError) (simp add: PathFollowerProvider_def applyEasing_unknown that)
  then show ?thesis
    by (simp add: applyEasing_unknown applyEasing_inherited)
       (simp add: PathFollowerProvider_def applyEasing_def)
qed

theorem unknown_easing_name_fails_when_applied_witness:
  "map_of easings ''bounce'' = None \<and> ''bounce'' \<notin> set Object_prototype_keys \<and>
   applyEasing (1/2) (Name ''bounce'') = Inl TypeError"
proof -
  have h: "map_of easings ''bounce'' = None \<and> ''bounce'' \<notin> set Object_prototype_keys"
    by (simp add: easings_def Object_prototype_keys_def)
  from unknown_easing_name_fails_when_applied [of "''bounce''"] h show ?thesis by blast
qed

section \<open>Raw progress\<close>

lemma rawProgress_degenerate:
  "scrollHeight ss \<le> clientHeight ss \<Longrightarrow> rawProgress ss = 0"
  using round64_nonpos [of "scrollHeight ss - clientHeight ss"]
  by (simp add: rawProgress_def Let_def)

lemma rawProgress_scroll_at:
  "rawProgress (scroll_at y) = round64 (y / 100)"
  by (simp add: rawProgress_def scroll_at_def round64_examples)

text \<open>
  Claim C1.  The raw progress is the plain quotient, not clamped: a scroll offset below
  \<open>0\<close> or beyond \<open>scrollHeight - clientHeight\<close> (elastic overscroll) gives a value outside
  \<open>[0, 1]\<close>, and with smoothing off the tick publishes it as \<open>scrollProgress\<close>.
\<close>

theorem rawProgress_unclamped:
  "rawProgress \<lparr>scrollTop = - 50, scrollLeft = 0, scrollHeight = 200, clientHeight = 100,
                clientWidth = 100\<rparr> = - 1/2 \<and>
   rawProgress \<lparr>scrollTop = 150, scrollLeft = 0, scrollHeight = 200, clientHeight = 100,
                clientWidth = 100\<rparr> = 3/2 \<and>
   tick (Some \<lparr>scrollTop = - 50, scrollLeft = 0, scrollHeight = 200, clientHeight = 100,
               clientWidth = 100\<rparr>) 16
     (PathFollowerProvider
        \<lparr>easing_prop = None, smoothing_prop = None, smooth_prop = Some False,
         segments_prop = None\<rparr> 0) =
   Inr (\<lparr>cfg_easing = Name ''linear'', cfg_smoothing = round64 0.15, cfg_smooth = False,
         smoothProgressRef = 0, lastProgressRef = - 1/2, lastTimeRef = 16,
         subscribersRef = [],
         segmentTrackerRef = \<lparr>segments = [], activeSegments = {}, callbacks = Map.empty,
                               lastProgress = - 1/2\<rparr>,
         stateRef = \<lparr>scrollProgress = - 1/2, state_pathProgress = - 1/2,
                     easedProgress = JsNumber 0,
                     state_direction = - 1, velocity = 125/4\<rparr>\<rparr>, [], [])"
  using round64_examples(2) round64_examples(3)
  by (simp add: tick_def PathFollowerProvider_def rawProgress_def smoothed_progress_def
      applyEasing_def easings_def linear_easing_def update_def new_SegmentTracker_def notify_def
      round64_examples(1))

section \<open>Smoothing\<close>

lemma smoothing_step_bound:
  assumes f: "0 < f" "f \<le> 1"
  shows "\<bar>round64 (s + round64 (round64 (r - s) * f)) - r\<bar>
           \<le> contraction f * \<bar>s - r\<bar> + rounding_floor r"
proof -
  define u where "u = unit_roundoff"
  define h where "h = underflow_unit"
  define a where "a = r - s"
  define d where "d = round64 a"
  define m where "m = round64 (d * f)"
  define s' where "s' = round64 (s + m)"
  define A where "A = \<bar>a\<bar>"
  define X where "X = \<bar>m - a * f\<bar>"
  define Y where "Y = \<bar>s + m - r\<bar>"
  have u0: "0 \<le> u" and h0: "0 \<le> h"
    using unit_roundoff_nonneg by (simp_all add: u_def h_def)
  have A0: "0 \<le> A" by (simp add: A_def)
  have h1: "\<bar>d - a\<bar> \<le> u * A + h"
    unfolding d_def A_def u_def h_def by (rule round64_error)
  have h2: "\<bar>m - d * f\<bar> \<le> u * \<bar>d * f\<bar> + h"
    unfolding m_def u_def h_def by (rule round64_error)
  have h3: "\<bar>s' - (s + m)\<bar> \<le> u * \<bar>s + m\<bar> + h"
    unfolding s'_def u_def h_def by (rule round64_error)
  have dB: "\<bar>d\<bar> \<le> (1 + u) * A + h"
    using h1 by (simp add: A_def algebra_simps)
  have "\<bar>d * f\<bar> = \<bar>d\<bar> * f" using f by (simp add: abs_mult)
  also have "\<dots> \<le> \<bar>d\<bar> * 1" using f by (intro mult_left_mono) simp_all
  finally have dfB: "\<bar>d * f\<bar> \<le> (1 + u) * A + h" using dB by simp
  have t1: "u * \<bar>d * f\<bar> \<le> u * ((1 + u) * A + h)"
    using dfB u0 by (rule mult_left_mono)
  have "\<bar>d * f - a * f\<bar> = \<bar>d - a\<bar> * f"
    using f by (simp add: abs_mult flip: left_diff_distrib)
  also have "\<dots> \<le> \<bar>d - a\<bar> * 1" using f by (intro mult_left_mono) simp_all
  finally have t2: "\<bar>d * f - a * f\<bar> \<le> u * A + h" using h1 by simp
  have "X \<le> \<bar>m - d * f\<bar> + \<bar>d * f - a * f\<bar>"
    unfolding X_def by linarith
  with h2 t1 t2 have "X \<le> u * ((1 + u) * A + h) + h + (u * A + h)" by linarith
  also have "\<dots> = u * (2 + u) * A + h * (2 + u)" by (simp add: algebra_simps)
  finally have XB: "X \<le> u * (2 + u) * A + h * (2 + u)" .
  have "s + m - r = (m - a * f) - a * (1 - f)"
    by (simp add: a_def algebra_simps)
  then have "Y \<le> X + \<bar>a * (1 - f)\<bar>"
    unfolding Y_def X_def by linarith
  also have "\<bar>a * (1 - f)\<bar> = A * (1 - f)"
    using f by (simp add: abs_mult A_def)
  finally have "Y \<le> u * (2 + u) * A + h * (2 + u) + A * (1 - f)"
    using XB by linarith
  also have "\<dots> = (1 - f + u * (2 + u)) * A + h * (2 + u)"
    by (simp add: algebra_simps)
  finally have YB: "Y \<le> (1 - f + u * (2 + u)) * A + h * (2 + u)" .
  have "\<bar>s + m\<bar> \<le> \<bar>r\<bar> + Y" unfolding Y_def by linarith
  then have "u * \<bar>s + m\<bar> \<le> u * (\<bar>r\<bar> + Y)"
    using u0 by (rule mult_left_mono)
  moreover have "\<bar>s' - r\<bar> \<le> \<bar>s' - (s + m)\<bar> + Y" unfolding Y_def by linarith
  ultimately have "\<bar>s' - r\<bar> \<le> u * (\<bar>r\<bar> + Y) + h + Y"
    using h3 by linarith
  also have "\<dots> = (1 + u) * Y + u * \<bar>r\<bar> + h" by (simp add: algebra_simps)
  also have "\<dots> \<le> (1 + u) * ((1 - f + u * (2 + u)) * A + h * (2 + u)) + u * \<bar>r\<bar> + h"
    using YB u0 by (intro add_right_mono mult_left_mono) simp_all
  also have "\<dots> = (1 + u) * (1 - f + u * (2 + u)) * A + (u * \<bar>r\<bar> + h * (1 + (1 + u) * (2 + u)))"
    by (simp add: algebra_simps)
  finally have "\<bar>s' - r\<bar> \<le> contraction f * A + rounding_floor r"
    by (simp add: contraction_def rounding_floor_def u_def h_def)
  moreover have "A = \<bar>s - r\<bar>" by (simp add: A_def a_def)
  ultimately show ?thesis
    by (simp add: s'_def m_def d_def a_def)
qed

lemma contraction_nonneg: "f \<le> 1 \<Longrightarrow> 0 \<le> contraction f"
  using unit_roundoff_nonneg by (simp add: contraction_def)

lemma rounding_floor_nonneg: "0 \<le> rounding_floor r"
  using unit_roundoff_nonneg by (simp add: rounding_floor_def)

lemma contraction_less_1: "2 powi (- 51) \<le> f \<Longrightarrow> contraction f < 1"
  by (simp add: contraction_def unit_roundoff_def algebra_simps)

lemma geometric_sum_bound:
  assumes "0 \<le> q" and "q < (1::real)"
  shows "(\<Sum>k<n. q ^ k) \<le> 1 / (1 - q)"
proof -
  have "(\<Sum>k<n. q ^ k) = (1 - q ^ n) / (1 - q)"
    using assms by (simp add: sum_gp_strict)
  also have "\<dots> \<le> 1 / (1 - q)"
    using assms by (intro divide_right_mono) simp_all
  finally show ?thesis .
qed

text \<open>
  A tick with an easing that returns a number succeeds, and stores the filtered value.
\<close>

lemma tick_succeeds:
  assumes "\<forall>p. \<exists>x. applyEasing p (cfg_easing e) = Inr (JsNumber x)"
  shows "\<exists>e' ttr ntr. tick (Some scrollState) now e = Inr (e', ttr, ntr) \<and>
           smoothProgressRef e' =
             fst (smoothed_progress (cfg_smooth e) (cfg_smoothing e) (rawProgress scrollState)
                    (smoothProgressRef e)) \<and>
           cfg_smooth e' = cfg_smooth e \<and> cfg_smoothing e' = cfg_smoothing e \<and>
           cfg_easing e' = cfg_easing e"
proof -
  define progress where
    "progress = snd (smoothed_progress (cfg_smooth e) (cfg_smoothing e)
                       (rawProgress scrollState) (smoothProgressRef e))"
  from assms obtain x where "applyEasing progress (cfg_easing e) = Inr (JsNumber x)" by blast
  then show ?thesis
    by (simp add: tick_def Let_def split_beta progress_def)
qed

lemma ticks_bound:
  assumes "cfg_smooth e" and "0 < cfg_smoothing e" and "cfg_smoothing e \<le> 1"
    and "\<forall>p. \<exists>x. applyEasing p (cfg_easing e) = Inr (JsNumber x)"
    and "\<forall>(scrollState, now)\<in>set frames. rawProgress scrollState = r"
  shows "\<exists>e'. ticks frames e = Inr e' \<and>
           \<bar>smoothProgressRef e' - r\<bar>
             \<le> contraction (cfg_smoothing e) ^ length frames * \<bar>smoothProgressRef e - r\<bar> +
                rounding_floor r * (\<Sum>k<length frames. contraction (cfg_smoothing e) ^ k)"
  using assms
proof (induction frames arbitrary: e)
  case Nil
  show ?case by simp
next
  case (Cons frame frames)
  obtain scrollState now where frame: "frame = (scrollState, now)" by (cases frame)
  define f where "f = cfg_smoothing e"
  define q where "q = contraction f"
  define c where "c = rounding_floor r"
  define n where "n = length frames"
  from Cons.prems(5) have raw: "rawProgress scrollState = r"
    and rest: "\<forall>(scrollState, now)\<in>set frames. rawProgress scrollState = r"
    by (simp_all add: frame)
  from tick_succeeds [OF Cons.prems(4), of scrollState now]
  obtain e1 ttr ntr where t: "tick (Some scrollState) now e = Inr (e1, ttr, ntr)"
    and s1: "smoothProgressRef e1 =
               fst (smoothed_progress (cfg_smooth e) (cfg_smoothing e) (rawProgress scrollState)
                      (smoothProgressRef e))"
    and cfg: "cfg_smooth e1 = cfg_smooth e" "cfg_smoothing e1 = cfg_smoothing e"
      "cfg_easing e1 = cfg_easing e"
    by blast
  from s1 Cons.prems(1) raw
  have "smoothProgressRef e1 =
          round64 (smoothProgressRef e + round64 (round64 (r - smoothProgressRef e) * f))"
    by (simp add: smoothed_progress_def Let_def f_def)
  then have step: "\<bar>smoothProgressRef e1 - r\<bar> \<le> q * \<bar>smoothProgressRef e - r\<bar> + c"
    using smoothing_step_bound [of f "smoothProgressRef e" r] Cons.prems(2,3)
    by (simp add: f_def q_def c_def)
  have "\<exists>e'. ticks frames e1 = Inr e' \<and>
          \<bar>smoothProgressRef e' - r\<bar>
            \<le> contraction (cfg_smoothing e1) ^ length frames * \<bar>smoothProgressRef e1 - r\<bar> +
               rounding_floor r * (\<Sum>k<length frames. contraction (cfg_smoothing e1) ^ k)"
    using Cons.prems(1-4) rest by (intro Cons.IH) (simp_all add: cfg)
  then obtain e' where e': "ticks frames e1 = Inr e'"
    and ih: "\<bar>smoothProgressRef e' - r\<bar> \<le> q ^ n * \<bar>smoothProgressRef e1 - r\<bar> + c * (\<Sum>k<n. q ^ k)"
    by (auto simp: cfg q_def f_def c_def n_def)
  have q0: "0 \<le> q" using Cons.prems(3) by (simp add: q_def f_def contraction_nonneg)
  have "q ^ n * \<bar>smoothProgressRef e1 - r\<bar> \<le> q ^ n * (q * \<bar>smoothProgressRef e - r\<bar> + c)"
    using step q0 by (intro mult_left_mono) simp_all
  with ih have "\<bar>smoothProgressRef e' - r\<bar>
      \<le> q ^ n * (q * \<bar>smoothProgressRef e - r\<bar> + c) + c * (\<Sum>k<n. q ^ k)"
    by linarith
  also have "\<dots> = q ^ Suc n * \<bar>smoothProgressRef e - r\<bar> + c * (\<Sum>k<Suc n. q ^ k)"
    by (simp add: algebra_simps)
  finally have "\<bar>smoothProgressRef e' - r\<bar>
      \<le> q ^ Suc n * \<bar>smoothProgressRef e - r\<bar> + c * (\<Sum>k<Suc n. q ^ k)" .
  moreover have "ticks (frame # frames) e = Inr e'"
    by (simp add: frame t e')
  ultimately show ?case
    by (auto simp: q_def f_def c_def n_def)
qed

lemma factor_one_engine_cfg:
  "cfg_smooth factor_one_engine" "cfg_smoothing factor_one_engine = 1"
  "cfg_easing factor_one_engine = Name ''linear''"
  "smoothProgressRef factor_one_engine = 0"
  by (simp_all add: factor_one_engine_def PathFollowerProvider_def)

lemma linear_applies: "\<forall>p. \<exists>x. applyEasing p (Name ''linear'') = Inr (JsNumber x)"
  by (simp add: applyEasing_def easings_def)

text \<open>The filter at factor \<open>1\<close>: from \<open>0\<close> to \<open>0.7\<close>, then from \<open>0.7\<close> to \<open>0.1\<close>.\<close>

lemma smoothed_progress_to_07:
  "fst (smoothed_progress True 1 (round64 (7/10)) 0) = round64 (7/10)"
proof -
  have "round64 (round64 (7/10)) = round64 (7/10)"
    unfolding round64_examples
    by (subst round64_eval [where e = "- 1"]) (simp_all add: round_half_even_def)
  then show ?thesis
    by (simp add: smoothed_progress_def Let_def)
qed

lemma smoothed_progress_07_to_01:
  "fst (smoothed_progress True 1 (round64 (1/10)) (round64 (7/10))) =
     round64 (1/10) - 2 powi (- 55)"
proof -
  have a: "round64 (round64 (1/10) - round64 (7/10)) = - (5404319552844595 / 2 ^ 53)"
    unfolding round64_examples
    by (subst round64_eval [where e = "- 1"]) (simp_all add: round_half_even_def)
  have b: "round64 (- (5404319552844595 / 2 ^ 53)) = - (5404319552844595 / 2 ^ 53)"
    by (subst round64_eval [where e = "- 1"]) (simp_all add: round_half_even_def)
  have c: "round64 (round64 (7/10) + - (5404319552844595 / 2 ^ 53)) =
             round64 (1/10) - 2 powi (- 55)"
    unfolding round64_examples
    by (subst round64_eval [where e = "- 4"]) (simp_all add: round_half_even_def)
  show ?thesis
    by (simp only: smoothed_progress_def Let_def if_True fst_conv a mult_1_right b c)
qed

text \<open>
  Claim C4, as stated, fails in binary64: at factor \<open>1\<close> the bound after one tick is
  \<open>0\<close>, but the tick from \<open>0.7\<close> towards the raw value \<open>0.1\<close> stores
  \<open>0.1 - 2 powi (- 55)\<close>, because the difference \<open>0.1 - 0.7\<close> rounds.
\<close>

theorem smoothing_exact_bound_counterexample:
  "cfg_smooth factor_one_engine \<and> cfg_smoothing factor_one_engine = 1 \<and>
   rawProgress (scroll_at 10) = round64 (1/10) \<and>
   map_sum id smoothProgressRef (ticks [(scroll_at 70, 16)] factor_one_engine) =
     Inr (round64 (7/10)) \<and>
   map_sum id smoothProgressRef
     (ticks [(scroll_at 70, 16), (scroll_at 10, 32)] factor_one_engine) =
     Inr (round64 (1/10) - 2 powi (- 55)) \<and>
   \<not> \<bar>(round64 (1/10) - 2 powi (- 55)) - round64 (1/10)\<bar>
       \<le> \<bar>round64 (7/10) - round64 (1/10)\<bar> * (1 - 1) ^ 1"
proof -
  have raw70: "rawProgress (scroll_at 70) = round64 (7/10)"
    and raw10: "rawProgress (scroll_at 10) = round64 (1/10)"
    by (simp_all add: rawProgress_scroll_at)
  have ok0: "\<forall>p. \<exists>x. applyEasing p (cfg_easing factor_one_engine) = Inr (JsNumber x)"
    by (simp add: factor_one_engine_cfg linear_applies)
  from tick_succeeds [OF ok0, of "scroll_at 70" 16]
  obtain e1 ttr1 ntr1 where t1: "tick (Some (scroll_at 70)) 16 factor_one_engine = Inr (e1, ttr1, ntr1)"
    and s1: "smoothProgressRef e1 = round64 (7/10)"
    and cfg1: "cfg_smooth e1" "cfg_smoothing e1 = 1" "cfg_easing e1 = Name ''linear''"
    by (auto simp: factor_one_engine_cfg raw70 smoothed_progress_to_07)
  have ok1: "\<forall>p. \<exists>x. applyEasing p (cfg_easing e1) = Inr (JsNumber x)"
    by (simp add: cfg1 linear_applies)
  from tick_succeeds [OF ok1, of "scroll_at 10" 32]
  obtain e2 ttr2 ntr2 where t2: "tick (Some (scroll_at 10)) 32 e1 = Inr (e2, ttr2, ntr2)"
    and s2: "smoothProgressRef e2 = round64 (1/10) - 2 powi (- 55)"
    by (auto simp: cfg1 s1 raw10 smoothed_progress_07_to_01)
  have "map_sum id smoothProgressRef (ticks [(scroll_at 70, 16)] factor_one_engine) =
          Inr (round64 (7/10))"
    by (simp add: t1 s1)
  moreover have "map_sum id smoothProgressRef
      (ticks [(scroll_at 70, 16), (scroll_at 10, 32)] factor_one_engine) =
      Inr (round64 (1/10) - 2 powi (- 55))"
    by (simp add: t1 t2 s2)
  ultimately show ?thesis
    by (simp add: factor_one_engine_cfg raw10)
qed

text \<open>
  Claim C4, amended.  With smoothing on, a factor \<open>f\<close> in \<open>(0, 1]\<close> and an easing that
  returns numbers, a tick succeeds and stores \<open>s + (raw - s) * f\<close> with each of the three
  operations rounded to binary64.  After \<open>N\<close> ticks with the same raw value \<open>r\<close> the
  distance to \<open>r\<close> is at most \<open>q ^ N\<close> times the first distance plus
  \<open>c * (1 + q + \<dots> + q ^ (N - 1))\<close>, where \<open>q = contraction f\<close> is \<open>1 - f\<close> up to a few
  units of roundoff and \<open>c = rounding_floor r\<close> is what the roundings of one tick add.
  For \<open>f\<close> of at least \<open>2 powi (- 51)\<close>, \<open>q < 1\<close> and the added part stays below
  \<open>c / (1 - q)\<close>: the smoothed value approaches \<open>r\<close> up to that rounding error.
\<close>

theorem smoothing_bound_under_rounding:
  assumes "cfg_smooth e" and "0 < cfg_smoothing e" and "cfg_smoothing e \<le> 1"
    and "\<forall>p. \<exists>x. applyEasing p (cfg_easing e) = Inr (JsNumber x)"
    and "\<forall>(scrollState, now)\<in>set frames. rawProgress scrollState = r"
  shows
    "(case tick (Some scrollState) now e of
        Inl err \<Rightarrow> False
      | Inr (e1, ttr, ntr) \<Rightarrow>
          smoothProgressRef e1 =
            round64 (smoothProgressRef e +
              round64 (round64 (rawProgress scrollState - smoothProgressRef e) * cfg_smoothing e))) \<and>
     (case ticks frames e of
        Inl err \<Rightarrow> False
      | Inr e' \<Rightarrow>
          \<bar>smoothProgressRef e' - r\<bar>
            \<le> contraction (cfg_smoothing e) ^ length frames * \<bar>smoothProgressRef e - r\<bar> +
               rounding_floor r * (\<Sum>k<length frames. contraction (cfg_smoothing e) ^ k) \<and>
          (2 powi (- 51) \<le> cfg_smoothing e \<longrightarrow>
             \<bar>smoothProgressRef e' - r\<bar>
               \<le> contraction (cfg_smoothing e) ^ length frames * \<bar>smoothProgressRef e - r\<bar> +
                  rounding_floor r / (1 - contraction (cfg_smoothing e))))"
proof -
  define q where "q = contraction (cfg_smoothing e)"
  define c where "c = rounding_floor r"
  from tick_succeeds [OF assms(4), of scrollState now] assms(1)
  have one: "case tick (Some scrollState) now e of
        Inl err \<Rightarrow> False
      | Inr (e1, ttr, ntr) \<Rightarrow>
          smoothProgressRef e1 =
            round64 (smoothProgressRef e +
              round64 (round64 (rawProgress scrollState - smoothProgressRef e) * cfg_smoothing e))"
    by (auto simp: smoothed_progress_def Let_def)
  from ticks_bound [OF assms]
  obtain e' where e': "ticks frames e = Inr e'"
    and b: "\<bar>smoothProgressRef e' - r\<bar>
              \<le> q ^ length frames * \<bar>smoothProgressRef e - r\<bar> + c * (\<Sum>k<length frames. q ^ k)"
    by (auto simp: q_def c_def)
  have "\<bar>smoothProgressRef e' - r\<bar>
          \<le> q ^ length frames * \<bar>smoothProgressRef e - r\<bar> + c / (1 - q)"
    if "2 powi (- 51) \<le> cfg_smoothing e"
  proof -
    have q0: "0 \<le> q" using assms(3) by (simp add: q_def contraction_nonneg)
    have q1: "q < 1" using that by (simp add: q_def contraction_less_1)
    have "c * (\<Sum>k<length frames. q ^ k) \<le> c * (1 / (1 - q))"
      using geometric_sum_bound [OF q0 q1] rounding_floor_nonneg [of r]
      by (intro mult_left_mono) (simp_all add: c_def)
    with b show ?thesis by simp
  qed
  with one e' b show ?thesis
    by (simp add: q_def c_def)
qed

theorem smoothing_bound_under_rounding_witness:
  "cfg_smooth factor_one_engine \<and> 0 < cfg_smoothing factor_one_engine \<and>
   cfg_smoothing factor_one_engine \<le> 1 \<and>
   2 powi (- 51) \<le> cfg_smoothing factor_one_engine \<and>
   rawProgress (scroll_at 70) = round64 (7/10) \<and>
   (case ticks [(scroll_at 70, 16), (scroll_at 70, 32)] factor_one_engine of
      Inl err \<Rightarrow> False
    | Inr e' \<Rightarrow>
        \<bar>smoothProgressRef e' - round64 (7/10)\<bar>
          \<le> contraction (cfg_smoothing factor_one_engine)
                ^ length [(scroll_at 70, 16::real), (scroll_at 70, 32)]
              * \<bar>smoothProgressRef factor_one_engine - round64 (7/10)\<bar> +
             rounding_floor (round64 (7/10)) /
               (1 - contraction (cfg_smoothing factor_one_engine)))"
proof -
  have h1: "cfg_smooth factor_one_engine" by (simp add: factor_one_engine_cfg)
  have h2: "0 < cfg_smoothing factor_one_engine" by (simp add: factor_one_engine_cfg)
  have h3: "cfg_smoothing factor_one_engine \<le> 1" by (simp add: factor_one_engine_cfg)
  have h4: "\<forall>p. \<exists>x. applyEasing p (cfg_easing factor_one_engine) = Inr (JsNumber x)"
    by (simp add: factor_one_engine_cfg linear_applies)
  have raw: "rawProgress (scroll_at 70) = round64 (7/10)"
    by (simp add: rawProgress_scroll_at)
  have h5: "\<forall>(scrollState, now)\<in>set [(scroll_at 70, 16), (scroll_at 70, 32)].
              rawProgress scrollState = round64 (7/10)"
    by (simp add: raw)
  have h6: "2 powi (- 51) \<le> cfg_smoothing factor_one_engine"
    by (simp add: factor_one_engine_cfg)
  from smoothing_bound_under_rounding [OF h1 h2 h3 h4 h5] h1 h2 h3 h6 raw
  show ?thesis
    by (auto split: sum.splits)
qed

section \<open>The tracker: what a fan-out leaves unchanged\<close>

lemma unsubscribe_frame [simp]:
  "segments (unsubscribe i r t) = segments t"
  "activeSegments (unsubscribe i r t) = activeSegments t"
  "lastProgress (unsubscribe i r t) = lastProgress t"
  by (simp_all add: unsubscribe_def)

lemma call_callback_frame [simp]:
  "segments (fst (call_callback i cb ev t)) = segments t"
  "activeSegments (fst (call_callback i cb ev t)) = activeSegments t"
  "lastProgress (fst (call_callback i cb ev t)) = lastProgress t"
proof -
  have "segments (fold (\<lambda>(i, r). unsubscribe i r) us t) = segments t \<and>
        activeSegments (fold (\<lambda>(i, r). unsubscribe i r) us t) = activeSegments t \<and>
        lastProgress (fold (\<lambda>(i, r). unsubscribe i r) us t) = lastProgress t" for us
    by (induction us arbitrary: t) (simp_all add: split_beta)
  then show "segments (fst (call_callback i cb ev t)) = segments t"
    "activeSegments (fst (call_callback i cb ev t)) = activeSegments t"
    "lastProgress (fst (call_callback i cb ev t)) = lastProgress t"
    by (simp_all add: call_callback_def)
qed

lemma forEach_callbacks_Cons:
  "forEach_callbacks i (cb # cbs) ev t =
     (fst (forEach_callbacks i cbs ev (fst (call_callback i cb ev t))),
      snd (call_callback i cb ev t) @ snd (forEach_callbacks i cbs ev (fst (call_callback i cb ev t))))"
  by (simp add: Let_def split_beta)

lemma forEach_callbacks_frame [simp]:
  "segments (fst (forEach_callbacks i cbs ev t)) = segments t"
  "activeSegments (fst (forEach_callbacks i cbs ev t)) = activeSegments t"
  "lastProgress (fst (forEach_callbacks i cbs ev t)) = lastProgress t"
  by (induction cbs arbitrary: t; simp add: forEach_callbacks_Cons del: forEach_callbacks.simps(2))+

lemma emit_eq:
  "emit i ev t =
     (fst (forEach_callbacks i (callbacks_of t i) ev t),
      Emitted i ev # snd (forEach_callbacks i (callbacks_of t i) ev t))"
  by (simp add: emit_def Let_def split_beta)

lemma emit_frame [simp]:
  "segments (fst (emit i ev t)) = segments t"
  "activeSegments (fst (emit i ev t)) = activeSegments t"
  "lastProgress (fst (emit i ev t)) = lastProgress t"
  by (simp_all add: emit_eq)

lemma emitted_append [simp]: "emitted (tr1 @ tr2) = emitted tr1 @ emitted tr2"
  by (induction tr1 rule: emitted.induct) simp_all

lemma emitted_call_callback [simp]: "emitted (snd (call_callback i cb ev t)) = []"
proof -
  have "emitted (map (\<lambda>(i, r). Unsubscribed i r) us) = []" for us
    by (induction us) (simp_all add: split_beta)
  then show ?thesis by (simp add: call_callback_def)
qed

lemma emitted_forEach_callbacks [simp]: "emitted (snd (forEach_callbacks i cbs ev t)) = []"
  by (induction cbs arbitrary: t) (simp_all add: forEach_callbacks_Cons del: forEach_callbacks.simps(2))

lemma emitted_emit [simp]: "emitted (snd (emit i ev t)) = [ev]"
  by (simp add: emit_eq)

lemma calcSegmentProgress_spec: "calcSegmentProgress p s = spec_segmentProgress p s"
  by (simp add: calcSegmentProgress_def spec_segmentProgress_def)

lemma update_segment_frame [simp]:
  "segments (fst (update_segment s p d t)) = segments t"
  "lastProgress (fst (update_segment s p d t)) = lastProgress t"
  by (simp_all add: update_segment_def Let_def)

lemma update_segment_active:
  "activeSegments (fst (update_segment s p d t)) =
     (if seg_start s \<le> p \<and> p \<le> seg_end s then insert (seg_id s) (activeSegments t)
      else activeSegments t - {seg_id s})"
  by (simp add: update_segment_def Let_def insert_absorb)

lemma update_segment_emitted:
  "emitted (snd (update_segment s p d t)) =
     (case spec_event (activeSegments t) d p s of None \<Rightarrow> [] | Some ev \<Rightarrow> [ev])"
proof (cases "seg_start s \<le> p \<and> p \<le> seg_end s")
  case inside: True
  show ?thesis
  proof (cases "seg_id s \<in> activeSegments t")
    case True
    with inside show ?thesis
      by (simp add: update_segment_def spec_event_def Let_def calcSegmentProgress_spec)
  next
    case False
    with inside show ?thesis
      by (simp add: update_segment_def spec_event_def Let_def calcSegmentProgress_spec)
  qed
next
  case outside: False
  show ?thesis
  proof (cases "seg_id s \<in> activeSegments t")
    case True
    with outside show ?thesis
      by (simp add: update_segment_def spec_event_def Let_def calcSegmentProgress_spec)
  next
    case False
    with outside show ?thesis
      by (simp add: update_segment_def spec_event_def Let_def calcSegmentProgress_spec)
  qed
qed

lemma update_loop_Cons:
  "update_loop (s # ss) p d t =
     (fst (update_loop ss p d (fst (update_segment s p d t))),
      snd (update_segment s p d t) @ snd (update_loop ss p d (fst (update_segment s p d t))))"
  by (simp add: Let_def split_beta)

lemma update_loop_frame [simp]:
  "segments (fst (update_loop ss p d t)) = segments t"
  "lastProgress (fst (update_loop ss p d t)) = lastProgress t"
  by (induction ss arbitrary: t; simp add: update_loop_Cons del: update_loop.simps(2))+

lemma update_loop_other:
  "i \<notin> seg_id ` set ss \<Longrightarrow>
     (i \<in> activeSegments (fst (update_loop ss p d t))) = (i \<in> activeSegments t)"
  by (induction ss arbitrary: t)
     (simp_all add: update_loop_Cons update_segment_active del: update_loop.simps(2))

lemma update_loop_active:
  "distinct (map seg_id ss) \<Longrightarrow> s \<in> set ss \<Longrightarrow>
     (seg_id s \<in> activeSegments (fst (update_loop ss p d t))) =
       (seg_start s \<le> p \<and> p \<le> seg_end s)"
proof (induction ss arbitrary: t)
  case Nil
  then show ?case by simp
next
  case (Cons x xs)
  show ?case
  proof (cases "s = x")
    case True
    from Cons.prems have "seg_id x \<notin> seg_id ` set xs" by simp
    then show ?thesis
      using True
      by (simp add: update_loop_Cons update_loop_other update_segment_active
               del: update_loop.simps(2))
  next
    case False
    with Cons.prems have "s \<in> set xs" "distinct (map seg_id xs)" by simp_all
    then show ?thesis
      using Cons.IH by (simp add: update_loop_Cons del: update_loop.simps(2))
  qed
qed

lemma spec_event_cong:
  "(seg_id s \<in> A) = (seg_id s \<in> B) \<Longrightarrow> spec_event A d p s = spec_event B d p s"
  by (simp add: spec_event_def)

lemma update_loop_emitted:
  "distinct (map seg_id ss) \<Longrightarrow>
     emitted (snd (update_loop ss p d t)) =
       List.map_filter (spec_event (activeSegments t) d p) ss"
proof (induction ss arbitrary: t)
  case Nil
  then show ?case by (simp add: List.map_filter_simps)
next
  case (Cons x xs)
  let ?t1 = "fst (update_segment x p d t)"
  from Cons.prems have dx: "distinct (map seg_id xs)" and nx: "seg_id x \<notin> seg_id ` set xs"
    by simp_all
  have same: "List.map_filter (spec_event (activeSegments ?t1) d p) xs =
              List.map_filter (spec_event (activeSegments t) d p) xs"
  proof -
    have "spec_event (activeSegments ?t1) d p s = spec_event (activeSegments t) d p s"
      if "s \<in> set xs" for s
    proof -
      from that nx have "seg_id s \<noteq> seg_id x" by (metis imageI)
      then show ?thesis
        by (intro spec_event_cong) (simp add: update_segment_active)
    qed
    then show ?thesis
      by (simp add: List.map_filter_def cong: filter_cong map_cong)
  qed
  have "emitted (snd (update_loop (x # xs) p d t)) =
          (case spec_event (activeSegments t) d p x of None \<Rightarrow> [] | Some ev \<Rightarrow> [ev]) @
          List.map_filter (spec_event (activeSegments t) d p) xs"
    using Cons.IH [OF dx, of ?t1] same
    by (simp add: update_loop_Cons update_segment_emitted del: update_loop.simps(2))
  then show ?case
    by (simp add: List.map_filter_simps split: option.splits)
qed

lemma update_eq:
  "update p t =
     ((fst (update_loop (segments t) p (if p \<ge> lastProgress t then 1 else - 1) t))
        \<lparr>lastProgress := p\<rparr>,
      snd (update_loop (segments t) p (if p \<ge> lastProgress t then 1 else - 1) t))"
  by (simp add: update_def Let_def split_beta)

section \<open>The tracker: events of one update\<close>

lemma shared_id_tracker_state:
  "segments shared_id_tracker = [segment_a_early, segment_a_late]"
  "activeSegments shared_id_tracker = {}"
  "lastProgress shared_id_tracker = 0"
  by (simp_all add: shared_id_tracker_def addSegment_def new_SegmentTracker_def)

text \<open>
  Claim C2, as stated, fails when two segments share an id: the active flag is kept per
  id.  At \<open>0.1\<close> the first segment enters and sets the flag; the second, inactive before
  the call and still out of range, finds the flag set and emits an exit, where the claim
  has no event for it.
\<close>

theorem shared_id_events_counterexample:
  "segments shared_id_tracker = [segment_a_early, segment_a_late] \<and>
   activeSegments shared_id_tracker = {} \<and>
   emitted (snd (update (1/10) shared_id_tracker)) =
     [\<lparr>ev_type = Enter, segment = segment_a_early, segmentProgress = 1/3,
       pathProgress = 1/10, direction = 1\<rparr>,
      \<lparr>ev_type = Exit, segment = segment_a_late, segmentProgress = 1,
       pathProgress = 1/10, direction = 1\<rparr>] \<and>
   List.map_filter (spec_event (activeSegments shared_id_tracker) 1 (1/10))
     (segments shared_id_tracker) =
     [\<lparr>ev_type = Enter, segment = segment_a_early, segmentProgress = 1/3,
       pathProgress = 1/10, direction = 1\<rparr>]"
  by (simp add: shared_id_tracker_state update_eq update_loop_Cons update_segment_emitted
      update_segment_active spec_event_def spec_segmentProgress_def List.map_filter_simps
      segment_a_early_def segment_a_late_def del: update_loop.simps(2))

text \<open>
  Claim C2, amended.  With segment ids unique, the events that one call \<open>update p\<close>
  passes to \<open>emit\<close> are, segment by segment in the order of the list, exactly the one
  event or none that the specification gives for that segment from the active set as it
  was before the call: enter, exit, progress, or nothing.
\<close>

theorem update_emits_one_event_per_segment:
  assumes "distinct (map seg_id (segments t))"
  shows "emitted (snd (update p t)) =
           List.map_filter
             (spec_event (activeSegments t) (if p \<ge> lastProgress t then 1 else - 1) p)
             (segments t)"
  using update_loop_emitted [OF assms] by (simp add: update_eq)

theorem update_emits_one_event_per_segment_witness:
  "distinct (map seg_id (segments example_tracker)) \<and>
   emitted (snd (update (1/2) example_tracker)) =
     [\<lparr>ev_type = Progress, segment = segment_a, segmentProgress = 5/6,
       pathProgress = 1/2, direction = 1\<rparr>,
      \<lparr>ev_type = Enter, segment = segment_b, segmentProgress = 1/6,
       pathProgress = 1/2, direction = 1\<rparr>]"
proof -
  have h: "distinct (map seg_id (segments example_tracker))"
    by (simp add: example_tracker_def segment_a_def segment_b_def)
  show ?thesis
    using h update_emits_one_event_per_segment [OF h, of "1/2"]
    by (simp add: example_tracker_def segment_a_def segment_b_def spec_event_def
        spec_segmentProgress_def List.map_filter_simps)
qed

text \<open>
  Claim C9, as stated, fails after two \<open>addSegment\<close> calls with one id: the later
  segment in the list decides the shared flag, so after \<open>update 0.1\<close> the id is not
  active although \<open>0.1\<close> lies in the range of the first segment.
\<close>

theorem shared_id_active_flag_counterexample:
  "segment_a_early \<in> set (segments shared_id_tracker) \<and>
   seg_start segment_a_early \<le> 1/10 \<and> 1/10 \<le> seg_end segment_a_early \<and>
   \<not> isActive (seg_id segment_a_early) (fst (update (1/10) shared_id_tracker))"
  by (simp add: shared_id_tracker_state update_eq update_loop_Cons update_segment_active
      isActive_def segment_a_early_def segment_a_late_def del: update_loop.simps(2))

text \<open>
  Claim C9, amended.  With segment ids unique, after \<open>update p\<close> a tracked segment is
  active exactly when \<open>p\<close> lies in its range, whatever the tracker's state was before.
\<close>

theorem update_active_set_determined:
  assumes "distinct (map seg_id (segments t))" and "s \<in> set (segments t)"
  shows "isActive (seg_id s) (fst (update p t)) = (seg_start s \<le> p \<and> p \<le> seg_end s)"
  using update_loop_active [OF assms] by (simp add: update_eq isActive_def)

theorem update_active_set_determined_witness:
  "distinct (map seg_id (segments example_tracker)) \<and>
   segment_a \<in> set (segments example_tracker) \<and>
   \<not> isActive ''a'' (fst (update (7/10) example_tracker))"
proof -
  have h1: "distinct (map seg_id (segments example_tracker))"
    by (simp add: example_tracker_def segment_a_def segment_b_def)
  have h2: "segment_a \<in> set (segments example_tracker)"
    by (simp add: example_tracker_def)
  show ?thesis
    using h1 h2 update_active_set_determined [OF h1 h2, of "7/10"]
    by (simp add: segment_a_def)
qed

section \<open>The tracker: direction\<close>

lemma spec_event_direction: "spec_event A d p s = Some ev \<Longrightarrow> direction ev = d"
  by (auto simp: spec_event_def Let_def split: if_splits)

lemma update_loop_direction:
  "ev \<in> set (emitted (snd (update_loop ss p d t))) \<Longrightarrow> direction ev = d"
proof (induction ss arbitrary: t)
  case Nil
  then show ?case by simp
next
  case (Cons x xs)
  then show ?case
    by (auto simp: update_loop_Cons update_segment_emitted spec_event_direction
             simp del: update_loop.simps(2) split: option.splits)
qed

text \<open>
  Claim C5.  Every event that one call \<open>update p\<close> emits carries the same direction,
  \<open>1\<close> if \<open>p\<close> is at least the \<open>lastProgress\<close> of before the call and \<open>-1\<close> otherwise,
  and after the call \<open>lastProgress\<close> is \<open>p\<close>, whatever was emitted.
\<close>

theorem update_direction:
  "(\<forall>ev\<in>set (emitted (snd (update p t))).
      direction ev = (if p \<ge> lastProgress t then 1 else - 1)) \<and>
   lastProgress (fst (update p t)) = p"
  using update_loop_direction by (simp add: update_eq)

lemma example_tracker_distinct:
  "distinct (map seg_id (segments (example_tracker\<lparr>lastProgress := x\<rparr>)))"
  by (simp add: example_tracker_def segment_a_def segment_b_def)

theorem update_direction_witness:
  "emitted (snd (update (2/5) (example_tracker\<lparr>lastProgress := 1/2\<rparr>))) =
     [\<lparr>ev_type = Progress, segment = segment_a, segmentProgress = 2/3,
       pathProgress = 2/5, direction = - 1\<rparr>,
      \<lparr>ev_type = Enter, segment = segment_b, segmentProgress = 0,
       pathProgress = 2/5, direction = - 1\<rparr>] \<and>
   lastProgress (fst (update (2/5) (example_tracker\<lparr>lastProgress := 1/2\<rparr>))) = 2/5 \<and>
   map direction (emitted (snd (update (1/2) example_tracker))) = [1, 1]"
  using update_direction [of "2/5" "example_tracker\<lparr>lastProgress := 1/2\<rparr>"]
    update_direction [of "1/2" example_tracker]
    update_loop_emitted [OF example_tracker_distinct [of "1/2"], of "2/5" "- 1"
      "example_tracker\<lparr>lastProgress := 1/2\<rparr>"]
    update_loop_emitted [OF example_tracker_distinct [of "3/10"], of "1/2" 1
      "example_tracker\<lparr>lastProgress := 3/10\<rparr>"]
  by (simp add: update_eq example_tracker_def segment_a_def segment_b_def spec_event_def
      spec_segmentProgress_def List.map_filter_simps)

section \<open>Unsubscribing\<close>

subsection \<open>subscribed\<close>

lemma subscribed_unsubscribe:
  "subscribed (unsubscribe j r t) i = (if i = j then subscribed t i - {r} else subscribed t i)"
  by (auto simp: subscribed_def unsubscribe_def callbacks_of_def)

lemma subscribed_fold_unsubscribe:
  "subscribed (fold (\<lambda>(j, r). unsubscribe j r) us t) i = subscribed t i - {r. (i, r) \<in> set us}"
proof (induction us arbitrary: t)
  case Nil
  show ?case by simp
next
  case (Cons u us)
  obtain j r where u: "u = (j, r)" by (cases u)
  show ?case
    by (auto simp: u Cons.IH subscribed_unsubscribe)
qed

lemma unsubscribed_in_simps [simp]:
  "unsubscribed_in [] = {}"
  "unsubscribed_in (Emitted i ev # tr) = unsubscribed_in tr"
  "unsubscribed_in (Invoked i r ev # tr) = unsubscribed_in tr"
  "unsubscribed_in (Unsubscribed i r # tr) = insert (i, r) (unsubscribed_in tr)"
  "unsubscribed_in (tr1 @ tr2) = unsubscribed_in tr1 \<union> unsubscribed_in tr2"
  by (auto simp: unsubscribed_in_def)

lemma unsubscribed_in_map [simp]:
  "unsubscribed_in (map (\<lambda>(i, r). Unsubscribed i r) us) = set us"
  by (induction us) (auto simp: split_beta)

lemma call_callback_trace:
  "snd (call_callback j cb ev t) =
     Invoked j (cb_ref cb) ev # map (\<lambda>(i, r). Unsubscribed i r) (cb_unsubs cb)"
  by (simp add: call_callback_def)

lemma subscribed_call_callback:
  "subscribed (fst (call_callback j cb ev t)) i =
     subscribed t i - {r. (i, r) \<in> unsubscribed_in (snd (call_callback j cb ev t))}"
  by (simp add: call_callback_trace) (simp add: call_callback_def subscribed_fold_unsubscribe)

lemma subscribed_forEach_callbacks:
  "subscribed (fst (forEach_callbacks j cbs ev t)) i =
     subscribed t i - {r. (i, r) \<in> unsubscribed_in (snd (forEach_callbacks j cbs ev t))}"
proof (induction cbs arbitrary: t)
  case Nil
  show ?case by simp
next
  case (Cons cb cbs)
  show ?case
    unfolding forEach_callbacks_Cons fst_conv snd_conv Cons.IH subscribed_call_callback
    by auto
qed

lemma subscribed_emit:
  "subscribed (fst (emit j ev t)) i =
     subscribed t i - {r. (i, r) \<in> unsubscribed_in (snd (emit j ev t))}"
  by (simp add: emit_eq subscribed_forEach_callbacks)

lemma subscribed_activeSegments_update [simp]:
  "subscribed (t\<lparr>activeSegments := A\<rparr>) i = subscribed t i"
  by (simp add: subscribed_def callbacks_of_def)

lemma subscribed_lastProgress_update [simp]:
  "subscribed (t\<lparr>lastProgress := x\<rparr>) i = subscribed t i"
  by (simp add: subscribed_def callbacks_of_def)

lemma subscribed_update_segment:
  "subscribed (fst (update_segment s p d t)) i =
     subscribed t i - {r. (i, r) \<in> unsubscribed_in (snd (update_segment s p d t))}"
  by (simp add: update_segment_def Let_def subscribed_emit)

lemma subscribed_update_loop:
  "subscribed (fst (update_loop ss p d t)) i =
     subscribed t i - {r. (i, r) \<in> unsubscribed_in (snd (update_loop ss p d t))}"
proof (induction ss arbitrary: t)
  case Nil
  show ?case by simp
next
  case (Cons s ss)
  show ?case
    unfolding update_loop_Cons fst_conv snd_conv Cons.IH subscribed_update_segment
    by auto
qed

lemma subscribed_update:
  "subscribed (fst (update p t)) i =
     subscribed t i - {r. (i, r) \<in> unsubscribed_in (snd (update p t))}"
  by (simp add: update_eq subscribed_update_loop)

subsection \<open>not_in_later_fanout\<close>

lemma not_in_later_fanout_append:
  "not_in_later_fanout d rc (a @ b) =
     (not_in_later_fanout d rc a \<and>
      not_in_later_fanout (fst (fanout_after d rc a)) (snd (fanout_after d rc a)) b)"
  by (induction d rc a rule: not_in_later_fanout.induct) simp_all

lemma fanout_after_set:
  "set (fst (fanout_after d rc a)) \<union> set (snd (fanout_after d rc a)) =
     set d \<union> set rc \<union> unsubscribed_in a"
  by (induction d rc a rule: fanout_after.induct) auto

lemma not_in_later_fanout_map:
  "not_in_later_fanout d rc (map (\<lambda>(i, r). Unsubscribed i r) us @ tr) =
     not_in_later_fanout d (rev us @ rc) tr"
  by (induction us arbitrary: rc) (simp_all add: split_beta)

lemma not_in_later_fanout_forEach:
  "\<forall>r. (j, r) \<in> set d \<longrightarrow> r \<notin> cb_ref ` set cbs \<Longrightarrow>
     not_in_later_fanout d rc (snd (forEach_callbacks j cbs ev t))"
proof (induction cbs arbitrary: rc t)
  case Nil
  show ?case by simp
next
  case (Cons cb cbs)
  from Cons.prems have head: "(j, cb_ref cb) \<notin> set d"
    and rest: "\<forall>r. (j, r) \<in> set d \<longrightarrow> r \<notin> cb_ref ` set cbs"
    by auto
  show ?case
    unfolding forEach_callbacks_Cons snd_conv call_callback_trace
    using head Cons.IH [OF rest]
    by (simp add: not_in_later_fanout_map)
qed

lemma not_in_later_fanout_emit:
  assumes "\<forall>(i, r)\<in>set d \<union> set rc. r \<notin> subscribed t i"
  shows "not_in_later_fanout d rc (snd (emit j ev t))"
proof -
  from assms have "\<forall>r. (j, r) \<in> set (rc @ d) \<longrightarrow> r \<notin> cb_ref ` set (callbacks_of t j)"
    by (auto simp: subscribed_def)
  then show ?thesis
    by (simp add: emit_eq not_in_later_fanout_forEach)
qed

lemma not_in_later_fanout_update_segment:
  assumes "\<forall>(i, r)\<in>set d \<union> set rc. r \<notin> subscribed t i"
  shows "not_in_later_fanout d rc (snd (update_segment s p dir t))"
proof -
  have "\<forall>(i, r)\<in>set d \<union> set rc. r \<notin> subscribed (t\<lparr>activeSegments := A\<rparr>) i" for A
    using assms by simp
  with assms show ?thesis
    by (simp add: update_segment_def Let_def not_in_later_fanout_emit)
qed

text \<open>The invariant after a step: what was cancelled stays cancelled.\<close>

lemma cancelled_after:
  assumes "\<forall>(i, r)\<in>set d \<union> set rc. r \<notin> subscribed t i"
    and "\<And>i. subscribed t' i = subscribed t i - {r. (i, r) \<in> unsubscribed_in tr}"
  shows "\<forall>(i, r)\<in>set (fst (fanout_after d rc tr)) \<union> set (snd (fanout_after d rc tr)).
           r \<notin> subscribed t' i"
  unfolding fanout_after_set using assms by auto

lemma not_in_later_fanout_update_loop:
  "\<forall>(i, r)\<in>set d \<union> set rc. r \<notin> subscribed t i \<Longrightarrow>
     not_in_later_fanout d rc (snd (update_loop ss p dir t))"
proof (induction ss arbitrary: d rc t)
  case Nil
  show ?case by simp
next
  case (Cons s ss)
  let ?t1 = "fst (update_segment s p dir t)" and ?tr1 = "snd (update_segment s p dir t)"
  have inv: "\<forall>(i, r)\<in>set (fst (fanout_after d rc ?tr1)) \<union> set (snd (fanout_after d rc ?tr1)).
               r \<notin> subscribed ?t1 i"
    using Cons.prems subscribed_update_segment by (rule cancelled_after)
  show ?case
    unfolding update_loop_Cons snd_conv not_in_later_fanout_append
    using not_in_later_fanout_update_segment [OF Cons.prems] Cons.IH [OF inv]
    by simp
qed

lemma not_in_later_fanout_update:
  "\<forall>(i, r)\<in>set d \<union> set rc. r \<notin> subscribed t i \<Longrightarrow>
     not_in_later_fanout d rc (snd (update p t))"
  by (simp add: update_eq not_in_later_fanout_update_loop)

lemma updates_Cons:
  "updates (p # ps) t =
     (fst (updates ps (fst (update p t))), snd (update p t) @ snd (updates ps (fst (update p t))))"
  by (simp add: Let_def split_beta)

lemma not_in_later_fanout_updates:
  "\<forall>(i, r)\<in>set d \<union> set rc. r \<notin> subscribed t i \<Longrightarrow>
     not_in_later_fanout d rc (snd (updates ps t))"
proof (induction ps arbitrary: d rc t)
  case Nil
  show ?case by simp
next
  case (Cons p ps)
  let ?t1 = "fst (update p t)" and ?tr1 = "snd (update p t)"
  have inv: "\<forall>(i, r)\<in>set (fst (fanout_after d rc ?tr1)) \<union> set (snd (fanout_after d rc ?tr1)).
               r \<notin> subscribed ?t1 i"
    using Cons.prems subscribed_update by (rule cancelled_after)
  show ?case
    unfolding updates_Cons snd_conv not_in_later_fanout_append
    using not_in_later_fanout_update [OF Cons.prems] Cons.IH [OF inv]
    by simp
qed


subsection \<open>State subscribers\<close>

lemma refs_delete_subscribers:
  "sub_ref ` set (delete_subscribers rs subs) = sub_ref ` set subs - set rs"
  by (auto simp: delete_subscribers_def)

lemma never_notified_after_append:
  "never_notified_after d (a @ b) =
     (never_notified_after d a \<and> never_notified_after (unsubscribed_after d a) b)"
  by (induction d a rule: never_notified_after.induct) simp_all

lemma never_notified_after_map:
  "never_notified_after d (map StateUnsubscribed us @ tr) = never_notified_after (rev us @ d) tr"
  by (induction us arbitrary: d) simp_all

lemma unsubscribed_after_set:
  "set (unsubscribed_after d a) = set d \<union> {r. StateUnsubscribed r \<in> set a}"
  by (induction d a rule: unsubscribed_after.induct) auto

lemma notify_loop_Cons:
  "notify_loop (cb # pending) st subs =
     (fst (notify_loop (delete_subscribers (sub_unsubs cb) pending) st
             (delete_subscribers (sub_unsubs cb) subs)),
      Notified (sub_ref cb) st # map StateUnsubscribed (sub_unsubs cb) @
      snd (notify_loop (delete_subscribers (sub_unsubs cb) pending) st
             (delete_subscribers (sub_unsubs cb) subs)))"
  by (simp add: Let_def split_beta)

lemma notify_loop_refs:
  "sub_ref ` set (fst (notify_loop pending st subs)) =
     sub_ref ` set subs - {r. StateUnsubscribed r \<in> set (snd (notify_loop pending st subs))}"
proof (induction pending st subs rule: notify_loop.induct)
  case (1 st subs)
  show ?case by simp
next
  case (2 cb pending st subs)
  show ?case
    unfolding notify_loop_Cons fst_conv snd_conv "2.IH" refs_delete_subscribers
    by auto
qed

lemma never_notified_after_notify_loop:
  "sub_ref ` set pending \<inter> set d = {} \<Longrightarrow>
     never_notified_after d (snd (notify_loop pending st subs))"
proof (induction pending st subs arbitrary: d rule: notify_loop.induct)
  case (1 st subs)
  show ?case by simp
next
  case (2 cb pending st subs)
  from "2.prems" have head: "sub_ref cb \<notin> set d" by auto
  from "2.prems"
  have "sub_ref ` set (delete_subscribers (sub_unsubs cb) pending) \<inter>
          set (rev (sub_unsubs cb) @ d) = {}"
    by (auto simp: refs_delete_subscribers)
  then have "never_notified_after (rev (sub_unsubs cb) @ d)
          (snd (notify_loop (delete_subscribers (sub_unsubs cb) pending) st
                  (delete_subscribers (sub_unsubs cb) subs)))"
    by (rule "2.IH")
  with head show ?case
    unfolding notify_loop_Cons snd_conv
    by (simp add: never_notified_after_map)
qed

lemma notifies_Cons:
  "notifies (st # sts) subs =
     (fst (notifies sts (fst (notify st subs))),
      snd (notify st subs) @ snd (notifies sts (fst (notify st subs))))"
  by (simp add: Let_def split_beta)

lemma never_notified_after_notifies:
  "sub_ref ` set subs \<inter> set d = {} \<Longrightarrow> never_notified_after d (snd (notifies sts subs))"
proof (induction sts arbitrary: d subs)
  case Nil
  show ?case by simp
next
  case (Cons st sts)
  have first: "never_notified_after d (snd (notify st subs))"
    unfolding notify_def using Cons.prems by (rule never_notified_after_notify_loop)
  from Cons.prems
  have "sub_ref ` set (fst (notify st subs)) \<inter>
          set (unsubscribed_after d (snd (notify st subs))) = {}"
    unfolding notify_def notify_loop_refs unsubscribed_after_set by auto
  then have "never_notified_after (unsubscribed_after d (snd (notify st subs)))
               (snd (notifies sts (fst (notify st subs))))"
    by (rule Cons.IH)
  with first show ?case
    unfolding notifies_Cons snd_conv never_notified_after_append by simp
qed

subsection \<open>Unsubscribing and fan-out\<close>

text \<open>
  The engine's fan-out for comparison: the first subscriber unsubscribes the second,
  which is then not notified.
\<close>

lemma notify_skips_unsubscribed:
  "notify st [Subscriber 1 [2], Subscriber 2 []] =
     ([Subscriber 1 [2]], [Notified 1 st, StateUnsubscribed 2])"
  by (simp add: notify_def delete_subscribers_def)

text \<open>
  Claim C7, as stated, fails for the tracker: the first callback of segment \<open>a\<close>
  unsubscribes the second while \<open>emit\<close> is going through the list, and the second is
  invoked all the same.
\<close>

theorem unsubscribe_during_fanout_counterexample:
  "snd (update (1/2) unsubscribing_tracker) =
     [Emitted ''a'' \<lparr>ev_type = Enter, segment = segment_a, segmentProgress = 5/6,
                     pathProgress = 1/2, direction = 1\<rparr>,
      Invoked ''a'' 1 \<lparr>ev_type = Enter, segment = segment_a, segmentProgress = 5/6,
                       pathProgress = 1/2, direction = 1\<rparr>,
      Unsubscribed ''a'' 2,
      Invoked ''a'' 2 \<lparr>ev_type = Enter, segment = segment_a, segmentProgress = 5/6,
                       pathProgress = 1/2, direction = 1\<rparr>] \<and>
   \<not> never_after_unsubscribe [] (snd (update (1/2) unsubscribing_tracker))"
  by (simp add: unsubscribing_tracker_def update_def update_segment_def emit_def
      call_callback_def subscribe_def unsubscribe_def callbacks_of_def new_SegmentTracker_def
      calcSegmentProgress_def segment_a_def)

text \<open>
  Claim C7, amended.  A state subscriber of the engine is never notified after its
  unsubscribe function was called, be it before the fan-outs or during one.  A segment
  callback of the tracker is not invoked by any \<open>emit\<close> that starts after its unsubscribe
  function was called, be it before the updates or during an earlier fan-out.  (The
  callbacks of the model never subscribe again.)
\<close>

theorem unsubscribed_not_invoked_by_later_fanout:
  "never_notified_after [] (snd (notifies sts subs)) \<and>
   never_notified_after [r] (snd (notifies sts (delete_subscribers [r] subs))) \<and>
   not_in_later_fanout [] [] (snd (updates ps t)) \<and>
   not_in_later_fanout [(i, r)] [] (snd (updates ps (unsubscribe i r t)))"
proof -
  have "sub_ref ` set (delete_subscribers [r] subs) \<inter> set [r] = {}"
    by (simp add: refs_delete_subscribers)
  then have a: "never_notified_after [r] (snd (notifies sts (delete_subscribers [r] subs)))"
    by (rule never_notified_after_notifies)
  have b: "never_notified_after [] (snd (notifies sts subs))"
    by (rule never_notified_after_notifies) simp
  have "\<forall>(j, q)\<in>set [(i, r)] \<union> set []. q \<notin> subscribed (unsubscribe i r t) j"
    by (simp add: subscribed_unsubscribe)
  then have c: "not_in_later_fanout [(i, r)] [] (snd (updates ps (unsubscribe i r t)))"
    by (rule not_in_later_fanout_updates)
  have d: "not_in_later_fanout [] [] (snd (updates ps t))"
    by (rule not_in_later_fanout_updates) simp
  from a b c d show ?thesis by simp
qed

subsection \<open>addSegment and the callbacks of its id\<close>



end
